theory Spec2Isabelle
  imports Main "HOL-Library.Sublist"
begin

section \<open>The parse results of the scanning library\<close>

text \<open>
  \<^verbatim>\<open>extract_deliverables.py\<close> is Python 2 and builds its grammar from the pyparsing
  library: \<^verbatim>\<open>nestedExpr\<close>, string literals joined by \<^verbatim>\<open>+\<close>, \<^verbatim>\<open>Or\<close>, parse actions
  and \<^verbatim>\<open>scanString\<close>. The library is not part of the repository, so the part of it
  that \<^verbatim>\<open>parse_projects\<close> runs is written out here, element by element, as
  pyparsing 2.x defines it: the sections on quoted strings, on nested bracket groups and
  on the scan, and the basic functions of this section. The input is a Python 2 \<^verbatim>\<open>str\<close>,
  a byte string, hence a \<open>string\<close>; a position in the input is the suffix that starts
  there.

  A parse result is a nested list whose leaves are strings: a token is a \<^verbatim>\<open>str\<close> or
  the result of a \<^verbatim>\<open>Group\<close>.
\<close>

datatype tok = Str string | Grp "tok list"

text \<open>Exceptions that the handlers of the source can raise.\<close>

datatype exn = IndexError | TypeError

text \<open>
  A handler mutates the shared list before it returns or raises; what it leaves behind
  is kept in both cases.
\<close>

datatype 'a outcome = Returned 'a | Raised exn 'a

text \<open>The backslash, which cannot stand in a string literal here.\<close>

abbreviation bs :: char where "bs \<equiv> CHR 0x5C"

text \<open>\<^verbatim>\<open>ParserElement.DEFAULT_WHITE_CHARS = " \n\t\r"\<close>\<close>

definition DEFAULT_WHITE_CHARS :: "char list" where
  "DEFAULT_WHITE_CHARS = [CHR '' '', CHR 0x0A, CHR 0x09, CHR 0x0D]"

text \<open>
  \<^verbatim>\<open>ParserElement.preParse\<close>: every element of the grammar skips leading white space
  before it matches (no ignorable expression is set on any of them).
\<close>

definition preParse :: "string \<Rightarrow> string" where
  "preParse s = dropWhile (\<lambda>c. c \<in> set DEFAULT_WHITE_CHARS) s"

text \<open>
  \<^verbatim>\<open>str.expandtabs()\<close>, which \<^verbatim>\<open>scanString\<close> applies to its input first
  (\<^verbatim>\<open>keepTabs\<close> is off): a tab becomes the spaces up to the next multiple of 8 of the
  column, and a line feed or carriage return resets the column.
\<close>

fun expandtabs :: "nat \<Rightarrow> string \<Rightarrow> string" where
  "expandtabs j [] = []"
| "expandtabs j (c # cs) =
     (if c = CHR 0x09 then
        replicate (8 - j mod 8) CHR '' '' @ expandtabs (j + (8 - j mod 8)) cs
      else if c = CHR 0x0A \<or> c = CHR 0x0D then c # expandtabs 0 cs
      else c # expandtabs (j + 1) cs)"

text \<open>
  \<^verbatim>\<open>str.strip(chars)\<close>; without an argument Python 2 strips the six ASCII white space
  characters.
\<close>

definition strip_chars :: "char list \<Rightarrow> string \<Rightarrow> string" where
  "strip_chars cs s =
     rev (dropWhile (\<lambda>c. c \<in> set cs) (rev (dropWhile (\<lambda>c. c \<in> set cs) s)))"

definition py_whitespace :: "char list" where
  "py_whitespace = [CHR '' '', CHR 0x09, CHR 0x0A, CHR 0x0D, CHR 0x0B, CHR 0x0C]"

definition strip :: "string \<Rightarrow> string" where
  "strip s = strip_chars py_whitespace s"

text \<open>\<^verbatim>\<open>sep.join(xs)\<close>\<close>

fun join :: "string \<Rightarrow> string list \<Rightarrow> string" where
  "join sep [] = []"
| "join sep [x] = x"
| "join sep (x # y # ys) = x @ sep @ join sep (y # ys)"

section \<open>Quoted strings\<close>

text \<open>
  \<^verbatim>\<open>nestedExpr\<close> is called without \<^verbatim>\<open>ignoreExpr\<close>, so its default, \<^verbatim>\<open>quotedString\<close>,
  applies: a quoted string inside a bracket group is one token, and no other token runs
  into the start of one. pyparsing 2.1 and 2.2 define it as
  \<^verbatim>\<open>Combine(Regex(r'"(?:[^"\n\r\\]|(?:"")|(?:\\(?:[^x]|x[0-9a-fA-F]+)))*')+'"' | ...)\<close>
  with the same expression for the single quote. The regular expression is greedy and
  nothing follows its star, so it takes, as long as it can, a character other than the
  quote, a line end and the backslash, or a doubled quote, or a backslash escape; the
  closing quote must come right after. \<open>quoted_body q s\<close> is the input left after the
  body. In every version of the library a quoted string starts with a quote character.
\<close>

definition hexdigit :: "char \<Rightarrow> bool" where
  "hexdigit c = (c \<in> set ''0123456789abcdefABCDEF'')"

function quoted_body :: "char \<Rightarrow> string \<Rightarrow> string" where
  "quoted_body q [] = []"
| "quoted_body q (c # cs) =
     (if c = q then
        (case cs of
           [] \<Rightarrow> c # cs
         | d # ds \<Rightarrow> if d = q then quoted_body q ds else c # cs)
      else if c = bs then
        (case cs of
           [] \<Rightarrow> c # cs
         | d # ds \<Rightarrow>
             if d \<noteq> CHR ''x'' then quoted_body q ds
             else if takeWhile hexdigit ds = [] then c # cs
             else quoted_body q (dropWhile hexdigit ds))
      else if c = CHR 0x0A \<or> c = CHR 0x0D then c # cs
      else quoted_body q cs)"
  by pat_completeness auto
termination
proof (relation "measure (\<lambda>(q, s). length s)")
  fix q :: char and c :: char and cs :: string and d :: char and ds :: string
  assume "cs = d # ds"
  have "length (dropWhile hexdigit ds) \<le> length ds"
    by (rule length_dropWhile_le)
  then show "((q, dropWhile hexdigit ds), (q, c # cs)) \<in> measure (\<lambda>(q, s). length s)"
    using \<open>cs = d # ds\<close> by simp
qed auto

text \<open>The number of characters of the quoted string that starts the input, if one does.\<close>

definition quotedString :: "string \<Rightarrow> nat option" where
  "quotedString s =
     (case s of
        [] \<Rightarrow> None
      | c # cs \<Rightarrow>
          if c = CHR 0x22 \<or> c = CHR 0x27 then
            (case quoted_body c cs of
               [] \<Rightarrow> None
             | d # ds \<Rightarrow> if d = c then Some (length s - length ds) else None)
          else None)"

section \<open>Nested bracket groups\<close>

text \<open>
  \<^verbatim>\<open>nestedExpr(opener, closer)\<close> with one-character delimiters and the default content:
  \<^verbatim>\<open>
  content = Combine(OneOrMore(~ignoreExpr +
                CharsNotIn(opener+closer+ParserElement.DEFAULT_WHITE_CHARS, exact=1))
            ).setParseAction(lambda t: t[0].strip())
  ret = Forward()
  ret <<= Group(Suppress(opener) + ZeroOrMore(ignoreExpr | ret | content) + Suppress(closer))
  \<close>
  \<open>content_expr\<close> is the longest run of characters that are neither a delimiter nor white
  space and at which no quoted string starts; \<^verbatim>\<open>Combine\<close> lets no white space in.
\<close>

fun content_expr :: "char \<Rightarrow> char \<Rightarrow> string \<Rightarrow> string \<times> string" where
  "content_expr opener closer [] = ([], [])"
| "content_expr opener closer (c # cs) =
     (if quotedString (c # cs) \<noteq> None \<or> c = opener \<or> c = closer
         \<or> c \<in> set DEFAULT_WHITE_CHARS
      then ([], c # cs)
      else (let (t, r) = content_expr opener closer cs in (c # t, r)))"

text \<open>
  \<open>nestedExpr\<close> is the group \<^verbatim>\<open>ret\<close>, \<open>ZeroOrMore\<close> the loop inside it, whose
  alternatives are tried in the order quoted string, nested group, content. The loop
  ends at the first position where none of them matches; the closer must follow there.
  The three tests on lengths in \<open>ZeroOrMore\<close> (a quoted string is not empty, a nested
  group and a content token leave less than they were given) are always true: they are
  there for the termination proof only, and lemma \<open>ZeroOrMore_unguarded\<close> below states
  the loop without them.
\<close>

function nestedExpr :: "char \<Rightarrow> char \<Rightarrow> string \<Rightarrow> (tok \<times> string) option"
  and ZeroOrMore :: "char \<Rightarrow> char \<Rightarrow> string \<Rightarrow> tok list \<times> string"
where
  "nestedExpr opener closer s =
     (case preParse s of
        [] \<Rightarrow> None
      | c # cs \<Rightarrow>
          if c = opener then
            (let (ts, r) = ZeroOrMore opener closer cs in
             case preParse r of
               [] \<Rightarrow> None
             | d # ds \<Rightarrow> if d = closer then Some (Grp ts, ds) else None)
          else None)"
| "ZeroOrMore opener closer s =
     (let s' = preParse s in
      case quotedString s' of
        Some n \<Rightarrow>
          if 0 < n \<and> n \<le> length s' then
            (let (ts, r) = ZeroOrMore opener closer (drop n s') in (Str (take n s') # ts, r))
          else ([], s)
      | None \<Rightarrow>
          (case nestedExpr opener closer s' of
             Some (g, r) \<Rightarrow>
               if length r < length s' then
                 (let (ts, r') = ZeroOrMore opener closer r in (g # ts, r'))
               else ([], s)
           | None \<Rightarrow>
               (case content_expr opener closer s' of
                  ([], _) \<Rightarrow> ([], s)
                | (c # t, r) \<Rightarrow>
                    if length r < length s' then
                      (let (ts, r') = ZeroOrMore opener closer r in (Str (strip (c # t)) # ts, r'))
                    else ([], s))))"
  by pat_completeness auto
termination
proof (relation "measure (\<lambda>x. case x of
          Inl (opener, closer, s) \<Rightarrow> 2 * length s + 1
        | Inr (opener, closer, s) \<Rightarrow> 2 * length s + 2)")
  fix opener closer :: char and s :: string and c :: char and cs :: string
  assume "preParse s = c # cs"
  then have "length (c # cs) \<le> length s"
    unfolding preParse_def by (metis length_dropWhile_le)
  then show "(Inr (opener, closer, cs), Inl (opener, closer, s))
      \<in> measure (\<lambda>x. case x of
          Inl (opener, closer, s) \<Rightarrow> 2 * length s + 1
        | Inr (opener, closer, s) \<Rightarrow> 2 * length s + 2)"
    by simp
next
  fix opener closer :: char and s :: string and s' :: string
  assume "s' = preParse s"
  then have "length s' \<le> length s"
    unfolding preParse_def by (simp add: length_dropWhile_le)
  then show "(Inl (opener, closer, s'), Inr (opener, closer, s))
      \<in> measure (\<lambda>x. case x of
          Inl (opener, closer, s) \<Rightarrow> 2 * length s + 1
        | Inr (opener, closer, s) \<Rightarrow> 2 * length s + 2)"
    by simp
next
  fix opener closer :: char and s :: string and s' :: string and n :: nat
  assume "s' = preParse s" and "0 < n \<and> n \<le> length s'"
  then have "length (drop n s') < length s'" by auto
  moreover have "length s' \<le> length s"
    using \<open>s' = preParse s\<close> unfolding preParse_def by (simp add: length_dropWhile_le)
  ultimately show "(Inr (opener, closer, drop n s'), Inr (opener, closer, s))
      \<in> measure (\<lambda>x. case x of
          Inl (opener, closer, s) \<Rightarrow> 2 * length s + 1
        | Inr (opener, closer, s) \<Rightarrow> 2 * length s + 2)"
    by simp
next
  fix opener closer :: char and s :: string and s' :: string and r :: string
  assume "s' = preParse s" and "length r < length s'"
  moreover have "length (preParse s) \<le> length s"
    unfolding preParse_def by (simp add: length_dropWhile_le)
  ultimately show "(Inr (opener, closer, r), Inr (opener, closer, s))
      \<in> measure (\<lambda>x. case x of
          Inl (opener, closer, s) \<Rightarrow> 2 * length s + 1
        | Inr (opener, closer, s) \<Rightarrow> 2 * length s + 2)"
    by simp
next
  fix opener closer :: char and s :: string and s' :: string and r :: string
  assume "s' = preParse s" and "length r < length s'"
  moreover have "length (preParse s) \<le> length s"
    unfolding preParse_def by (simp add: length_dropWhile_le)
  ultimately show "(Inr (opener, closer, r), Inr (opener, closer, s))
      \<in> measure (\<lambda>x. case x of
          Inl (opener, closer, s) \<Rightarrow> 2 * length s + 1
        | Inr (opener, closer, s) \<Rightarrow> 2 * length s + 2)"
    by simp
qed simp

section \<open>The output model and the handlers of the source\<close>

text \<open>
  The handlers build dictionaries: \<^verbatim>\<open>ElementParser.parse\<close> returns one with the keys
  \<^verbatim>\<open>name\<close>, \<^verbatim>\<open>code\<close> and \<^verbatim>\<open>date\<close>, which is a key task as it is; a deliverable has
  the keys \<^verbatim>\<open>keytasks\<close> and \<^verbatim>\<open>prereqs\<close> in addition, a project the key
  \<^verbatim>\<open>deliverables\<close>. A prerequisite is the string \<^verbatim>\<open>'deliverable:'+req\<close> or
  \<^verbatim>\<open>'keyproject:'+req\<close>.
\<close>

record element =
  name :: string
  code :: string
  date :: string

type_synonym keytask = element

record deliverable = element +
  keytasks :: "keytask list"
  prereqs :: "string list"

record project = element +
  deliverables :: "deliverable list"

text \<open>\<^verbatim>\<open>match_to_string\<close>: a string as it is, a list flattened and joined by spaces.\<close>

fun match_to_string :: "tok \<Rightarrow> string" where
  "match_to_string (Str m) = m"
| "match_to_string (Grp m) = join '' '' (map match_to_string m)"

text \<open>
  \<^verbatim>\<open>ElementParser.parse\<close> reads the positions 1, 2 and 3 of the match; an index past the
  end raises \<^verbatim>\<open>IndexError\<close>.
\<close>

definition parse :: "tok list \<Rightarrow> exn + element" where
  "parse content =
     (if length content < 4 then Inl IndexError
      else Inr \<lparr>name = match_to_string (content ! 3),
                code = match_to_string (content ! 1),
                date = match_to_string (content ! 2)\<rparr>)"

text \<open>
  \<^verbatim>\<open>xs[-1]\<close> followed by a mutation of that element in place: the last element of the
  list is replaced. The callers test for the empty list first, where Python raises.
\<close>

definition update_last :: "('a \<Rightarrow> 'a) \<Rightarrow> 'a list \<Rightarrow> 'a list" where
  "update_last f xs = butlast xs @ [f (last xs)]"

text \<open>\<^verbatim>\<open>ProjectParser.__call__\<close>\<close>

definition ProjectParser_call :: "project list \<Rightarrow> tok list \<Rightarrow> project list outcome" where
  "ProjectParser_call projects content =
     (case parse content of
        Inl e \<Rightarrow> Raised e projects
      | Inr info \<Rightarrow>
          Returned (projects @
            [\<lparr>name = name info, code = code info, date = date info, deliverables = []\<rparr>]))"

text \<open>\<^verbatim>\<open>DeliverableParser.__call__\<close>: \<^verbatim>\<open>self.projects[-1]\<close> raises on the empty list.\<close>

definition DeliverableParser_call :: "project list \<Rightarrow> tok list \<Rightarrow> project list outcome" where
  "DeliverableParser_call projects content =
     (case parse content of
        Inl e \<Rightarrow> Raised e projects
      | Inr info \<Rightarrow>
          if projects = [] then Raised IndexError projects
          else Returned (update_last
            (\<lambda>current_project. current_project\<lparr>deliverables :=
               deliverables current_project @
                 [\<lparr>name = name info, code = code info, date = date info,
                   keytasks = [], prereqs = []\<rparr>]\<rparr>)
            projects))"

text \<open>\<^verbatim>\<open>KeyTaskParser.__call__\<close>: two lookups of a last element, either of which may raise.\<close>

definition KeyTaskParser_call :: "project list \<Rightarrow> tok list \<Rightarrow> project list outcome" where
  "KeyTaskParser_call projects content =
     (case parse content of
        Inl e \<Rightarrow> Raised e projects
      | Inr info \<Rightarrow>
          if projects = [] then Raised IndexError projects
          else if deliverables (last projects) = [] then Raised IndexError projects
          else Returned (update_last
            (\<lambda>current_project. current_project\<lparr>deliverables :=
               update_last
                 (\<lambda>current_deliverable. current_deliverable\<lparr>keytasks :=
                    keytasks current_deliverable @ [info]\<rparr>)
                 (deliverables current_project)\<rparr>)
            projects))"

text \<open>
  What iterating over, or indexing into, a value of the match gives: the elements of a
  list, the one-character strings of a string.
\<close>

fun elems :: "tok \<Rightarrow> tok list" where
  "elems (Grp ts) = ts"
| "elems (Str s) = map (\<lambda>c. Str [c]) s"

text \<open>
  The inner loop of \<^verbatim>\<open>PreReqParser.__call__\<close>:
  \<^verbatim>\<open>
  for req in content[i+1]:
      if req==',': continue
      prereqs.append('deliverable:'+req)
  \<close>
  Adding a list to a string raises \<^verbatim>\<open>TypeError\<close>. \<open>acc\<close> is the list \<^verbatim>\<open>prereqs\<close>.
\<close>

fun add_reqs :: "string \<Rightarrow> tok list \<Rightarrow> string list \<Rightarrow> string list outcome" where
  "add_reqs kind [] acc = Returned acc"
| "add_reqs kind (Str req # reqs) acc =
     (if req = '','' then add_reqs kind reqs acc
      else add_reqs kind reqs (acc @ [kind @ req]))"
| "add_reqs kind (Grp req # reqs) acc = Raised TypeError acc"

text \<open>
  \<^verbatim>\<open>isinstance(content[i], str) and content[i].strip(',').strip() == r'\deliverableref'\<close>,
  and the same for \<^verbatim>\<open>\keyprojectref\<close>: the prefix of the prerequisites that the token
  at \<open>i\<close> announces, if it is a reference token.
\<close>

definition ref_kind :: "tok \<Rightarrow> string option" where
  "ref_kind t =
     (case t of
        Grp _ \<Rightarrow> None
      | Str s \<Rightarrow>
          if strip (strip_chars '','' s) = bs # ''deliverableref'' then Some ''deliverable:''
          else if strip (strip_chars '','' s) = bs # ''keyprojectref'' then Some ''keyproject:''
          else None)"

text \<open>
  The \<^verbatim>\<open>while True\<close> loop of \<^verbatim>\<open>PreReqParser.__call__\<close>, from the index \<open>i\<close>. It reads
  \<^verbatim>\<open>content[i]\<close> and, after a reference token, \<^verbatim>\<open>content[i+1]\<close>, and leaves when
  \<^verbatim>\<open>i >= len(content)\<close>.
\<close>

function prereq_loop :: "tok list \<Rightarrow> nat \<Rightarrow> string list \<Rightarrow> string list outcome" where
  "prereq_loop content i acc =
     (if length content \<le> i then Raised IndexError acc
      else
        (case ref_kind (content ! i) of
           Some kind \<Rightarrow>
             if length content \<le> i + 1 then Raised IndexError acc
             else
               (case add_reqs kind (elems (content ! (i + 1))) acc of
                  Raised e acc' \<Rightarrow> Raised e acc'
                | Returned acc' \<Rightarrow>
                    if i + 2 \<ge> length content then Returned acc'
                    else prereq_loop content (i + 2) acc')
         | None \<Rightarrow>
             if i + 1 \<ge> length content then Returned acc
             else prereq_loop content (i + 1) acc))"
  by pat_completeness auto
termination
  by (relation "measure (\<lambda>(content, i, acc). length content - i)") auto

text \<open>
  \<^verbatim>\<open>PreReqParser.__call__\<close>: the match is \<^verbatim>\<open>['\prereq', group]\<close>; an empty group
  returns before any lookup; otherwise the prerequisites of the last deliverable of the
  last project are extended in place.
\<close>

definition PreReqParser_call :: "project list \<Rightarrow> tok list \<Rightarrow> project list outcome" where
  "PreReqParser_call projects content0 =
     (if length content0 < 2 then Raised IndexError projects
      else
        (let content = elems (content0 ! 1) in
         if content = [] then Returned projects
         else if projects = [] then Raised IndexError projects
         else if deliverables (last projects) = [] then Raised IndexError projects
         else
           (let store = (\<lambda>prereqs'.
                  update_last
                    (\<lambda>current_project. current_project\<lparr>deliverables :=
                       update_last
                         (\<lambda>current_deliverable. current_deliverable\<lparr>prereqs := prereqs'\<rparr>)
                         (deliverables current_project)\<rparr>)
                    projects)
            in case prereq_loop content 0 (prereqs (last (deliverables (last projects)))) of
                 Returned prereqs' \<Rightarrow> Returned (store prereqs')
               | Raised e prereqs' \<Rightarrow> Raised e (store prereqs'))))"

section \<open>The patterns and the scan\<close>

text \<open>
  \<^verbatim>\<open>r"\keyproject" + SB + RB + RB\<close> is an \<^verbatim>\<open>And\<close> of the literal, one group in square
  brackets and two groups in braces. The literal matches where the input starts with
  it; every group skips white space before its opener. The tokens are the literal and
  the three groups, in this order.
\<close>

definition element_pattern :: "string \<Rightarrow> string \<Rightarrow> (tok list \<times> string) option" where
  "element_pattern lit s =
     (if prefix lit s then
        (case nestedExpr CHR ''['' CHR '']'' (drop (length lit) s) of
           None \<Rightarrow> None
         | Some (g1, r1) \<Rightarrow>
             (case nestedExpr CHR ''{'' CHR ''}'' r1 of
                None \<Rightarrow> None
              | Some (g2, r2) \<Rightarrow>
                  (case nestedExpr CHR ''{'' CHR ''}'' r2 of
                     None \<Rightarrow> None
                   | Some (g3, r3) \<Rightarrow> Some ([Str lit, g1, g2, g3], r3))))
      else None)"

definition project_pattern :: "string \<Rightarrow> (tok list \<times> string) option" where
  "project_pattern = element_pattern (bs # ''keyproject'')"

definition deliverable_pattern :: "string \<Rightarrow> (tok list \<times> string) option" where
  "deliverable_pattern = element_pattern (bs # ''deliverable'')"

definition keytask_pattern :: "string \<Rightarrow> (tok list \<times> string) option" where
  "keytask_pattern = element_pattern (bs # ''keytask'')"

text \<open>\<^verbatim>\<open>r"\prereq" + pp.nestedExpr(opener='{', closer='}')\<close>\<close>

definition prereq_pattern :: "string \<Rightarrow> (tok list \<times> string) option" where
  "prereq_pattern s =
     (if prefix (bs # ''prereq'') s then
        (case nestedExpr CHR ''{'' CHR ''}'' (drop (length (bs # ''prereq'')) s) of
           None \<Rightarrow> None
         | Some (g, r) \<Rightarrow> Some ([Str (bs # ''prereq''), g], r))
      else None)"

type_synonym pattern = "string \<Rightarrow> (tok list \<times> string) option"
type_synonym action = "project list \<Rightarrow> tok list \<Rightarrow> project list outcome"

text \<open>
  \<^verbatim>\<open>Or.parseImpl\<close> tries every alternative without its parse action and keeps the one
  that matches the longest text, the first of them if several do.
\<close>

fun Or_longest ::
  "(pattern \<times> action) list \<Rightarrow> string \<Rightarrow> ((tok list \<times> string) \<times> action) option
     \<Rightarrow> ((tok list \<times> string) \<times> action) option" where
  "Or_longest [] s best = best"
| "Or_longest ((p, act) # alts) s best =
     (case p s of
        None \<Rightarrow> Or_longest alts s best
      | Some (ts, r) \<Rightarrow>
          (case best of
             None \<Rightarrow> Or_longest alts s (Some ((ts, r), act))
           | Some ((ts', r'), act') \<Rightarrow>
               if length r < length r' then Or_longest alts s (Some ((ts, r), act))
               else Or_longest alts s best))"

text \<open>
  What one attempt of \<^verbatim>\<open>search_pattern\<close> at a position gives to \<^verbatim>\<open>scanString\<close>:
  a \<^verbatim>\<open>ParseException\<close>, a match with the input that follows it, or another exception.
\<close>

datatype attempt = NoMatch "project list" | Match string "project list" | Abort exn

text \<open>
  \<^verbatim>\<open>search_pattern = pp.Or([project_pattern, deliverable_pattern, keytask_pattern,
  prereq_pattern])\<close>, each with its parse action. The chosen alternative is parsed again
  with its action, inside \<^verbatim>\<open>Or.parseImpl\<close>, which \<^verbatim>\<open>ParserElement._parseNoCache\<close> calls as
  \<^verbatim>\<open>
  try:
      loc,tokens = self.parseImpl( instring, preloc, doActions )
  except IndexError:
      raise ParseException( instring, len(instring), self.errmsg, self )
  \<close>
  so an \<^verbatim>\<open>IndexError\<close> that a parse action raises reaches \<^verbatim>\<open>scanString\<close> as a failed
  match; what the action did to the list before it raised stays done. Any other
  exception of an action leaves the scan.
\<close>

definition search_pattern :: "project list \<Rightarrow> string \<Rightarrow> attempt" where
  "search_pattern projects s =
     (case Or_longest
             [(project_pattern, ProjectParser_call),
              (deliverable_pattern, DeliverableParser_call),
              (keytask_pattern, KeyTaskParser_call),
              (prereq_pattern, PreReqParser_call)] s None of
        None \<Rightarrow> NoMatch projects
      | Some ((content, r), act) \<Rightarrow>
          (case act projects content of
             Returned projects' \<Rightarrow> Match r projects'
           | Raised e projects' \<Rightarrow>
               if e = IndexError then NoMatch projects' else Abort e))"

text \<open>
  The loop of \<^verbatim>\<open>scanString\<close>:
  \<^verbatim>\<open>
  while loc <= instrlen and matches < maxMatches:
      try:
          preloc = preparseFn( instring, loc )
          nextLoc,tokens = parseFn( instring, preloc, callPreParse=False )
      except ParseException:
          loc = preloc+1
      else:
          if nextLoc > loc:
              matches += 1
              yield tokens, preloc, nextLoc
              loc = nextLoc
          else:
              loc = preloc+1
  \<close>
  \<open>s\<close> is the input from \<open>loc\<close>; the loop is left when \<open>preloc + 1\<close> is past the end.
\<close>

function scan_loop :: "string \<Rightarrow> project list \<Rightarrow> exn + project list" where
  "scan_loop s projects =
     (let s' = preParse s in
      case search_pattern projects s' of
        Abort e \<Rightarrow> Inl e
      | NoMatch projects' \<Rightarrow>
          (case s' of [] \<Rightarrow> Inr projects' | c # cs \<Rightarrow> scan_loop cs projects')
      | Match r projects' \<Rightarrow>
          if length r < length s then scan_loop r projects'
          else (case s' of [] \<Rightarrow> Inr projects' | c # cs \<Rightarrow> scan_loop cs projects'))"
  by pat_completeness auto
termination
proof (relation "measure (\<lambda>(s, projects). length s)")
  have shorter: "length cs < length s" if "preParse s = c # cs"
    for s :: string and c :: char and cs :: string
  proof -
    have "length (preParse s) \<le> length s"
      unfolding preParse_def by (rule length_dropWhile_le)
    with that show ?thesis by simp
  qed
  show "((cs, projects'), (s, projects)) \<in> measure (\<lambda>(s, projects). length s)"
    if "s' = preParse s" and "s' = c # cs"
    for s s' :: string and c :: char and cs :: string
      and projects' projects :: "project list"
    using that shorter [of s c cs] by simp
  show "((cs, projects'), (s, projects)) \<in> measure (\<lambda>(s, projects). length s)"
    if "s' = preParse s" and "s' = c # cs"
    for s s' :: string and c :: char and cs :: string
      and projects' projects :: "project list"
    using that shorter [of s c cs] by simp
qed auto

text \<open>\<^verbatim>\<open>scanString\<close> expands the tabs of its input, then scans from position 0.\<close>

definition scanString :: "string \<Rightarrow> project list \<Rightarrow> exn + project list" where
  "scanString instring projects = scan_loop (expandtabs 0 instring) projects"

text \<open>
  \<^verbatim>\<open>parse_projects\<close>: the list starts empty in every call and is returned when the scan
  is over; an exception that leaves the scan leaves \<^verbatim>\<open>parse_projects\<close>.
\<close>

definition parse_projects :: "string \<Rightarrow> exn + project list" where
  "parse_projects text = scanString text []"

section \<open>White space in a captured field\<close>

text \<open>
  A string is single-spaced when it is a sequence of words with exactly one space
  between two of them: it neither starts nor ends with white space, holds no tab, line
  feed or carriage return, and no two spaces in a row.
\<close>

fun single_spaced :: "string \<Rightarrow> bool" where
  "single_spaced [] = True"
| "single_spaced [c] = (c \<notin> set DEFAULT_WHITE_CHARS)"
| "single_spaced (c # d # cs) =
     (c \<notin> set DEFAULT_WHITE_CHARS \<and>
      (if d = CHR '' '' then cs \<noteq> [] \<and> single_spaced cs else single_spaced (d # cs)))"

text \<open>A token without an empty group inside, at any depth.\<close>

fun solid :: "tok \<Rightarrow> bool" where
  "solid (Str w) = True"
| "solid (Grp ts) = (ts \<noteq> [] \<and> list_all solid ts)"

section \<open>The bracket matcher of the specification\<close>

text \<open>
  The specification describes a bracket group by counting. From the character after an
  opening delimiter the count goes up by one at an opener and down by one at a closer,
  the group ends at the closer that finds the count at zero, and the group is
  unterminated when the input ends first. \<open>count_span\<close> is that counter, started
  after the opener at count \<open>d\<close>: it gives the text that follows the matching closer, or
  \<open>None\<close> for an unterminated group.
\<close>

fun count_span :: "char \<Rightarrow> char \<Rightarrow> nat \<Rightarrow> string \<Rightarrow> string option" where
  "count_span opener closer d [] = None"
| "count_span opener closer d (x # xs) =
     (if x = closer then
        (case d of 0 \<Rightarrow> Some xs | Suc d' \<Rightarrow> count_span opener closer d' xs)
      else if x = opener then count_span opener closer (Suc d) xs
      else count_span opener closer d xs)"

text \<open>
  The counter is compared with \<open>nestedExpr\<close> on the texts where both read the same
  brackets. Two things lie beyond them. A quote character may start a quoted string,
  and \<open>nestedExpr\<close> does not count the brackets inside one. And the scanning library
  descends by recursion, about a dozen calls for every level of nesting, while the
  interpreter allows 1000 nested calls unless a program changes the limit, which this
  one does not do; so the comparison stops at \<open>max_nesting\<close> levels inside a group.
  \<open>span_of\<close> counts as \<open>count_span\<close> does and answers \<open>Beyond\<close> as soon as it reads a
  quote character or an opener at \<open>max_nesting\<close> levels. A group \<open>Closes\<close> with the text
  that follows its closer, or is \<open>Open_at_end\<close> of the input; \<open>Absent\<close> is for the
  group that does not start at all.
\<close>

definition quote_char :: "char \<Rightarrow> bool" where
  "quote_char x = (x = CHR 0x22 \<or> x = CHR 0x27)"

definition max_nesting :: nat where
  "max_nesting = 16"

datatype span = Closes string | Open_at_end | Absent | Beyond

fun span_of :: "char \<Rightarrow> char \<Rightarrow> nat \<Rightarrow> string \<Rightarrow> span" where
  "span_of opener closer d [] = Open_at_end"
| "span_of opener closer d (x # xs) =
     (if quote_char x then Beyond
      else if x = closer then
        (case d of 0 \<Rightarrow> Closes xs | Suc d' \<Rightarrow> span_of opener closer d' xs)
      else if x = opener then
        (if d < max_nesting then span_of opener closer (Suc d) xs else Beyond)
      else span_of opener closer d xs)"

text \<open>
  A group stands where the next character that is no white space is its opener, and
  its span is counted from the character after that opener.
\<close>

definition group_span :: "char \<Rightarrow> char \<Rightarrow> string \<Rightarrow> span" where
  "group_span opener closer s =
     (case preParse s of
        [] \<Rightarrow> Absent
      | x # xs \<Rightarrow> if x = opener then span_of opener closer 0 xs else Absent)"

text \<open>
  An element command by counting: the literal, then a group in square brackets and two
  groups in braces, each starting where the one before it has closed. The span of the
  command is the span of the first of its groups that does not close, and that of the
  last group otherwise.
\<close>

definition command_span :: "string \<Rightarrow> string \<Rightarrow> span" where
  "command_span lit s =
     (if prefix lit s then
        (case group_span CHR ''['' CHR '']'' (drop (length lit) s) of
           Closes r1 \<Rightarrow>
             (case group_span CHR ''{'' CHR ''}'' r1 of
                Closes r2 \<Rightarrow> group_span CHR ''{'' CHR ''}'' r2
              | other \<Rightarrow> other)
         | other \<Rightarrow> other)
      else Absent)"


text \<open>
  What the comparison asks of a pair of delimiters: two different characters, neither a
  quote nor white space. The square brackets and the braces of the program are such.
\<close>

definition brackets :: "char \<Rightarrow> char \<Rightarrow> bool" where
  "brackets opener closer =
     (opener \<noteq> closer \<and> \<not> quote_char opener \<and> \<not> quote_char closer
      \<and> opener \<notin> set DEFAULT_WHITE_CHARS \<and> closer \<notin> set DEFAULT_WHITE_CHARS)"

section \<open>The words of a group\<close>

text \<open>
  The words of a text are its longest runs of characters that are neither white space
  nor one of the two delimiters, from left to right. This is the reading of a group
  that the specification gives: split at white space, nested groups flattened.
\<close>

definition separator :: "char \<Rightarrow> char \<Rightarrow> char \<Rightarrow> bool" where
  "separator opener closer x = (x = opener \<or> x = closer \<or> x \<in> set DEFAULT_WHITE_CHARS)"

function words_of :: "char \<Rightarrow> char \<Rightarrow> string \<Rightarrow> string list" where
  "words_of opener closer s =
     (case dropWhile (separator opener closer) s of
        [] \<Rightarrow> []
      | x # xs \<Rightarrow>
          takeWhile (\<lambda>y. \<not> separator opener closer y) (x # xs)
          # words_of opener closer (dropWhile (\<lambda>y. \<not> separator opener closer y) xs))"
  by pat_completeness auto
termination
proof (relation "measure (\<lambda>(opener, closer, s). length s)")
  fix opener closer :: char and s :: string and x :: char and xs :: string
  assume a: "dropWhile (separator opener closer) s = x # xs"
  have "length (dropWhile (\<lambda>y. \<not> separator opener closer y) xs) \<le> length xs"
    by (rule length_dropWhile_le)
  moreover have "length (x # xs) \<le> length s"
    using length_dropWhile_le [of "separator opener closer" s] a by simp
  ultimately show "((opener, closer, dropWhile (\<lambda>y. \<not> separator opener closer y) xs),
      (opener, closer, s)) \<in> measure (\<lambda>(opener, closer, s). length s)"
    by simp
qed simp

text \<open>
  No group nested in the text is empty: after an opener, the next character that is no
  white space is not the closer. The text is read up to the closer of the group it is
  in, \<open>d\<close> being the count as above.
\<close>

fun tidy :: "char \<Rightarrow> char \<Rightarrow> nat \<Rightarrow> string \<Rightarrow> bool" where
  "tidy opener closer d [] = True"
| "tidy opener closer d (x # xs) =
     (if x = closer then (case d of 0 \<Rightarrow> True | Suc d' \<Rightarrow> tidy opener closer d' xs)
      else if x = opener then
        (case preParse xs of [] \<Rightarrow> True | y # ys \<Rightarrow> y \<noteq> closer)
        \<and> tidy opener closer (Suc d) xs
      else tidy opener closer d xs)"

text \<open>The strings of a token from left to right, at any depth.\<close>

fun flatten :: "tok \<Rightarrow> string list" where
  "flatten (Str w) = [w]"
| "flatten (Grp ts) = concat (map flatten ts)"

text \<open>
  The text between the brackets of a group is clean when counting closes the group
  exactly at its end, within the limits of \<open>span_of\<close>, no group nested in it is empty,
  and it holds neither a vertical tab nor a form feed: \<^verbatim>\<open>str.strip()\<close> removes these two
  from the ends of a token although they are no white space for the scanner.
\<close>

definition clean :: "char \<Rightarrow> char \<Rightarrow> string \<Rightarrow> bool" where
  "clean opener closer inside =
     (span_of opener closer 0 (inside @ [closer]) = Closes []
      \<and> tidy opener closer 0 (inside @ [closer])
      \<and> CHR 0x0B \<notin> set inside \<and> CHR 0x0C \<notin> set inside)"

section \<open>Commands in a text\<close>





section \<open>The list of projects as an object\<close>

text \<open>
  \<^verbatim>\<open>parse_projects\<close> creates the list with \<^verbatim>\<open>projects = []\<close> and gives this one object to
  the four handlers (\<^verbatim>\<open>ProjectParser(projects)\<close> and so on), which keep it as
  \<^verbatim>\<open>self.projects\<close> and change it in place; the caller receives the same object. To
  follow what two calls have in common, the list objects live in a store: the address
  of an object is its index, \<^verbatim>\<open>[]\<close> allocates the next index, and a handler reads and
  writes the object that its \<^verbatim>\<open>self.projects\<close> refers to. The dictionaries and the
  inner lists are created by the handlers and referred to from that list only, so the
  value of a list object is the whole tree below it.
\<close>

type_synonym store = "project list list"

definition new_list :: "store \<Rightarrow> nat \<times> store" where
  "new_list h = (length h, h @ [[]])"

text \<open>
  A call of a handler object whose \<^verbatim>\<open>self.projects\<close> is the address \<open>self_projects\<close>. What
  the handler does to the list is what the handlers above do to its value; the change
  stays in the store also when the handler raises.
\<close>

definition call_action :: "action \<Rightarrow> nat \<Rightarrow> tok list \<Rightarrow> store \<Rightarrow> exn option \<times> store" where
  "call_action act self_projects content h =
     (case act (h ! self_projects) content of
        Returned ps \<Rightarrow> (None, h[self_projects := ps])
      | Raised e ps \<Rightarrow> (Some e, h[self_projects := ps]))"

text \<open>
  \<^verbatim>\<open>search_pattern\<close>, \<^verbatim>\<open>scanString\<close> and \<^verbatim>\<open>parse_projects\<close> once more, with the store passed
  along and the four handlers bound to the address \<open>projects\<close>.
\<close>

datatype found = Failed | Matched string | Aborted exn

definition search_pattern_in :: "nat \<Rightarrow> string \<Rightarrow> store \<Rightarrow> found \<times> store" where
  "search_pattern_in projects s h =
     (case Or_longest
             [(project_pattern, ProjectParser_call),
              (deliverable_pattern, DeliverableParser_call),
              (keytask_pattern, KeyTaskParser_call),
              (prereq_pattern, PreReqParser_call)] s None of
        None \<Rightarrow> (Failed, h)
      | Some ((content, r), act) \<Rightarrow>
          (case call_action act projects content h of
             (None, h') \<Rightarrow> (Matched r, h')
           | (Some e, h') \<Rightarrow> if e = IndexError then (Failed, h') else (Aborted e, h')))"

function scan_loop_in :: "nat \<Rightarrow> string \<Rightarrow> store \<Rightarrow> exn option \<times> store" where
  "scan_loop_in projects s h =
     (let s' = preParse s in
      case search_pattern_in projects s' h of
        (f, h') \<Rightarrow>
          (case f of
             Aborted e \<Rightarrow> (Some e, h')
           | Failed \<Rightarrow>
               (case s' of [] \<Rightarrow> (None, h') | c # cs \<Rightarrow> scan_loop_in projects cs h')
           | Matched r \<Rightarrow>
               if length r < length s then scan_loop_in projects r h'
               else (case s' of [] \<Rightarrow> (None, h') | c # cs \<Rightarrow> scan_loop_in projects cs h')))"
  by pat_completeness auto
termination
proof (relation "measure (\<lambda>(projects, s, h). length s)")
  have shorter: "length cs < length s" if "preParse s = c # cs"
    for s :: string and c :: char and cs :: string
  proof -
    have "length (preParse s) \<le> length s"
      unfolding preParse_def by (rule length_dropWhile_le)
    with that show ?thesis by simp
  qed
  show "((projects, cs, h'), (projects, s, h)) \<in> measure (\<lambda>(projects, s, h). length s)"
    if "s' = preParse s" and "s' = c # cs"
    for s s' :: string and c :: char and cs :: string and projects :: nat and h h' :: store
    using that shorter [of s c cs] by simp
  show "((projects, cs, h'), (projects, s, h)) \<in> measure (\<lambda>(projects, s, h). length s)"
    if "s' = preParse s" and "s' = c # cs"
    for s s' :: string and c :: char and cs :: string and projects :: nat and h h' :: store
    using that shorter [of s c cs] by simp
qed auto

text \<open>
  \<^verbatim>\<open>parse_projects(text)\<close>: a new list, the scan with the handlers bound to it, and the
  address of that list as the result.
\<close>

definition parse_projects_in :: "string \<Rightarrow> store \<Rightarrow> (exn + nat) \<times> store" where
  "parse_projects_in text h =
     (case new_list h of
        (projects, h1) \<Rightarrow>
          (case scan_loop_in projects (expandtabs 0 text) h1 of
             (None, h2) \<Rightarrow> (Inr projects, h2)
           | (Some e, h2) \<Rightarrow> (Inl e, h2)))"

section \<open>The scanner consumes its input\<close>

declare nestedExpr.simps [simp del] ZeroOrMore.simps [simp del] scan_loop.simps [simp del]
  prereq_loop.simps [simp del] words_of.simps [simp del] scan_loop_in.simps [simp del]

lemma length_preParse: "length (preParse s) \<le> length s"
  unfolding preParse_def by (rule length_dropWhile_le)

lemma quoted_body_length: "length (quoted_body q s) \<le> length s"
proof (induction q s rule: quoted_body.induct)
  case (1 q)
  then show ?case by simp
next
  case (2 q c cs)
  show ?case
  proof (cases cs)
    case Nil
    then show ?thesis by simp
  next
    case (Cons d ds)
    have dw: "length (dropWhile hexdigit ds) \<le> length ds"
      by (rule length_dropWhile_le)
    consider (a) "c = q" "d = q" | (b) "c = q" "d \<noteq> q" | (e) "c \<noteq> q" "c = bs" "d \<noteq> CHR ''x''"
      | (f) "c \<noteq> q" "c = bs" "d = CHR ''x''" "takeWhile hexdigit ds = []"
      | (g) "c \<noteq> q" "c = bs" "d = CHR ''x''" "takeWhile hexdigit ds \<noteq> []"
      | (h) "c \<noteq> q" "c \<noteq> bs" "c = CHR 0x0A \<or> c = CHR 0x0D"
      | (i) "c \<noteq> q" "c \<noteq> bs" "\<not> (c = CHR 0x0A \<or> c = CHR 0x0D)"
      by blast
    then show ?thesis
    proof cases
      case a
      with 2(1) [OF a(1) Cons a(2)] Cons show ?thesis by simp
    next
      case b
      with Cons show ?thesis by simp
    next
      case e
      with 2(2) [OF e(1) e(2) Cons e(3)] Cons show ?thesis by simp
    next
      case f
      with Cons show ?thesis by simp
    next
      case g
      have "length (quoted_body q (dropWhile hexdigit ds)) \<le> length (dropWhile hexdigit ds)"
        using 2(3) [OF g(1) g(2) Cons] g(3) g(4) by simp
      with dw g Cons show ?thesis by simp
    next
      case h
      then show ?thesis by auto
    next
      case i
      with 2(4) [OF i(1) i(2) i(3)] show ?thesis by simp
    qed
  qed
qed

lemma quotedString_bounds:
  assumes "quotedString s = Some n"
  shows "0 < n \<and> n \<le> length s"
proof -
  from assms obtain c cs d ds where s: "s = c # cs" and b: "quoted_body c cs = d # ds"
    and n: "n = length s - length ds"
    by (auto simp: quotedString_def split: list.splits if_splits)
  have "length (quoted_body c cs) \<le> length cs" by (rule quoted_body_length)
  with b have "length ds < length cs" by simp
  with s n show ?thesis by simp
qed

lemma content_expr_append: "content_expr opener closer s = (t, r) \<Longrightarrow> t @ r = s"
  by (induction s arbitrary: t r) (auto split: if_splits prod.splits)

lemma nested_shorter:
  "\<forall>g r. nestedExpr opener closer s = Some (g, r) \<longrightarrow> length r < length s"
  "\<forall>ts r. ZeroOrMore opener closer s = (ts, r) \<longrightarrow> length r \<le> length s"
proof (induction opener closer s and opener closer s rule: nestedExpr_ZeroOrMore.induct)
  case (1 opener closer s)
  show ?case
  proof (intro allI impI)
    fix g r
    assume a: "nestedExpr opener closer s = Some (g, r)"
    then obtain c cs ts r1 where p: "preParse s = c # cs" and co: "c = opener"
      and z: "ZeroOrMore opener closer cs = (ts, r1)"
      and q: "preParse r1 = closer # r"
      by (auto simp: nestedExpr.simps [of opener closer s] split: list.splits if_splits prod.splits)
    from 1 [OF p co] z have "length r1 \<le> length cs" by blast
    moreover have "length (preParse r1) \<le> length r1" by (rule length_preParse)
    moreover have "length (preParse s) \<le> length s" by (rule length_preParse)
    ultimately show "length r < length s" using p q by simp
  qed
next
  case (2 opener closer s)
  show ?case
  proof (intro allI impI)
    fix ts r
    assume a: "ZeroOrMore opener closer s = (ts, r)"
    have ps: "length (preParse s) \<le> length s" by (rule length_preParse)
    show "length r \<le> length s"
    proof (cases "quotedString (preParse s)")
      case (Some n)
      note b = quotedString_bounds [OF Some]
      from a Some b obtain ts' where z: "ZeroOrMore opener closer (drop n (preParse s)) = (ts', r)"
        by (auto simp: ZeroOrMore.simps [of opener closer s] Let_def split: prod.splits)
      from 2(4) [OF refl Some b] z have "length r \<le> length (drop n (preParse s))" by blast
      with ps show ?thesis by simp
    next
      case None
      show ?thesis
      proof (cases "nestedExpr opener closer (preParse s)")
        case (Some gr)
        obtain g r1 where gr: "gr = (g, r1)" by (cases gr)
        from 2(1) [OF refl None] Some gr have l: "length r1 < length (preParse s)" by blast
        from a None Some gr l obtain ts' where z: "ZeroOrMore opener closer r1 = (ts', r)"
          by (auto simp: ZeroOrMore.simps [of opener closer s] Let_def split: prod.splits)
        from 2(3) [OF refl None Some gr [symmetric] l] z have "length r \<le> length r1"
          by blast
        with l ps show ?thesis by simp
      next
        case N2: None
        obtain t r1 where ce: "content_expr opener closer (preParse s) = (t, r1)"
          by (cases "content_expr opener closer (preParse s)")
        show ?thesis
        proof (cases t)
          case Nil
          with a None N2 ce have "r = s"
            by (simp add: ZeroOrMore.simps [of opener closer s] Let_def)
          then show ?thesis by simp
        next
          case (Cons c t')
          have "length (t @ r1) = length (preParse s)"
            using content_expr_append [OF ce] by simp
          with Cons have l: "length r1 < length (preParse s)"
            by simp
          from a None N2 ce Cons l obtain ts' where z: "ZeroOrMore opener closer r1 = (ts', r)"
            by (auto simp: ZeroOrMore.simps [of opener closer s] Let_def split: prod.splits)
          from 2(2) [OF refl None N2 ce [symmetric] Cons l] z
          have "length r \<le> length r1" by blast
          with l ps show ?thesis by simp
        qed
      qed
    qed
  qed
qed

lemma nestedExpr_shorter:
  "nestedExpr opener closer s = Some (g, r) \<Longrightarrow> length r < length s"
  using nested_shorter(1) by blast

text \<open>
  Hence the loop inside a group is the library's loop: the three tests on lengths that
  its definition carries never fail.
\<close>

lemma ZeroOrMore_unguarded:
  "ZeroOrMore opener closer s =
     (let s' = preParse s in
      case quotedString s' of
        Some n \<Rightarrow>
          (let (ts, r) = ZeroOrMore opener closer (drop n s') in (Str (take n s') # ts, r))
      | None \<Rightarrow>
          (case nestedExpr opener closer s' of
             Some (g, r) \<Rightarrow> (let (ts, r') = ZeroOrMore opener closer r in (g # ts, r'))
           | None \<Rightarrow>
               (case content_expr opener closer s' of
                  ([], _) \<Rightarrow> ([], s)
                | (c # t, r) \<Rightarrow>
                    (let (ts, r') = ZeroOrMore opener closer r
                     in (Str (strip (c # t)) # ts, r')))))"
proof (cases "quotedString (preParse s)")
  case (Some n)
  with quotedString_bounds [OF Some] show ?thesis
    by (simp add: ZeroOrMore.simps [of opener closer s] Let_def)
next
  case None
  show ?thesis
  proof (cases "nestedExpr opener closer (preParse s)")
    case (Some gr)
    obtain g r where gr: "gr = (g, r)" by (cases gr)
    from Some gr have "length r < length (preParse s)"
      by (simp add: nestedExpr_shorter)
    with None Some gr show ?thesis
      by (simp add: ZeroOrMore.simps [of opener closer s] Let_def)
  next
    case N2: None
    obtain t r where ce: "content_expr opener closer (preParse s) = (t, r)"
      by (cases "content_expr opener closer (preParse s)")
    show ?thesis
    proof (cases t)
      case Nil
      with None N2 ce show ?thesis
        by (simp add: ZeroOrMore.simps [of opener closer s] Let_def)
    next
      case (Cons c t')
      have "length (t @ r) = length (preParse s)"
        using content_expr_append [OF ce] by simp
      with Cons have "length r < length (preParse s)" by simp
      with None N2 ce Cons show ?thesis
        by (simp add: ZeroOrMore.simps [of opener closer s] Let_def)
    qed
  qed
qed

section \<open>The alternatives of the search pattern\<close>

text \<open>
  No two of the four literals start the same input, so at most one alternative of
  \<open>search_pattern\<close> matches at a position and the rule of the longest match never has
  to choose.
\<close>

lemma element_pattern_prefix: "element_pattern lit s = Some m \<Longrightarrow> prefix lit s"
  by (simp add: element_pattern_def split: if_splits)


lemma element_pattern_other:
  "prefix lit' s \<Longrightarrow> \<not> prefix lit lit' \<Longrightarrow> \<not> prefix lit' lit \<Longrightarrow> element_pattern lit s = None"
  by (auto simp: element_pattern_def dest: prefix_same_cases)

lemma prereq_pattern_other:
  "prefix lit' s \<Longrightarrow> \<not> prefix (bs # ''prereq'') lit' \<Longrightarrow> \<not> prefix lit' (bs # ''prereq'')
    \<Longrightarrow> prereq_pattern s = None"
  by (auto simp: prereq_pattern_def dest: prefix_same_cases)

lemma Or_project:
  assumes "project_pattern s = Some m"
  shows "Or_longest
             [(project_pattern, ProjectParser_call),
              (deliverable_pattern, DeliverableParser_call),
              (keytask_pattern, KeyTaskParser_call),
              (prereq_pattern, PreReqParser_call)] s None = Some (m, ProjectParser_call)"
proof -
  from assms have p: "prefix (bs # ''keyproject'') s"
    unfolding project_pattern_def by (rule element_pattern_prefix)
  have "deliverable_pattern s = None" unfolding deliverable_pattern_def
    by (rule element_pattern_other [OF p]) simp_all
  moreover have "keytask_pattern s = None" unfolding keytask_pattern_def
    by (rule element_pattern_other [OF p]) simp_all
  moreover have "prereq_pattern s = None"
    by (rule prereq_pattern_other [OF p]) simp_all
  ultimately show ?thesis using assms by (cases m) simp
qed

lemma Or_deliverable:
  assumes "deliverable_pattern s = Some m"
  shows "Or_longest
             [(project_pattern, ProjectParser_call),
              (deliverable_pattern, DeliverableParser_call),
              (keytask_pattern, KeyTaskParser_call),
              (prereq_pattern, PreReqParser_call)] s None = Some (m, DeliverableParser_call)"
proof -
  from assms have p: "prefix (bs # ''deliverable'') s"
    unfolding deliverable_pattern_def by (rule element_pattern_prefix)
  have "project_pattern s = None" unfolding project_pattern_def
    by (rule element_pattern_other [OF p]) simp_all
  moreover have "keytask_pattern s = None" unfolding keytask_pattern_def
    by (rule element_pattern_other [OF p]) simp_all
  moreover have "prereq_pattern s = None"
    by (rule prereq_pattern_other [OF p]) simp_all
  ultimately show ?thesis using assms by (cases m) simp
qed

lemma Or_keytask:
  assumes "keytask_pattern s = Some m"
  shows "Or_longest
             [(project_pattern, ProjectParser_call),
              (deliverable_pattern, DeliverableParser_call),
              (keytask_pattern, KeyTaskParser_call),
              (prereq_pattern, PreReqParser_call)] s None = Some (m, KeyTaskParser_call)"
proof -
  from assms have p: "prefix (bs # ''keytask'') s"
    unfolding keytask_pattern_def by (rule element_pattern_prefix)
  have "project_pattern s = None" unfolding project_pattern_def
    by (rule element_pattern_other [OF p]) simp_all
  moreover have "deliverable_pattern s = None" unfolding deliverable_pattern_def
    by (rule element_pattern_other [OF p]) simp_all
  moreover have "prereq_pattern s = None"
    by (rule prereq_pattern_other [OF p]) simp_all
  ultimately show ?thesis using assms by (cases m) simp
qed



lemma parse_error: "parse content = Inl e \<Longrightarrow> e = IndexError"
  by (simp add: parse_def split: if_splits)

lemma DeliverableParser_orphan: "DeliverableParser_call [] content = Raised IndexError []"
  by (auto simp: DeliverableParser_call_def split: sum.splits dest: parse_error)

lemma KeyTaskParser_orphan:
  "projects = [] \<or> deliverables (last projects) = [] \<Longrightarrow>
   KeyTaskParser_call projects content = Raised IndexError projects"
  by (auto simp: KeyTaskParser_call_def split: sum.splits dest: parse_error)

lemma search_pattern_Abort: "search_pattern ps s = Abort e \<Longrightarrow> e \<noteq> IndexError"
  by (auto simp: search_pattern_def split: option.splits prod.splits outcome.splits if_splits)

lemma scan_loop_no_IndexError: "scan_loop s ps \<noteq> Inl IndexError"
proof (induction s ps rule: scan_loop.induct)
  case (1 s projects)
  show ?case
  proof (cases "search_pattern projects (preParse s)")
    case (NoMatch ps')
    with 1(1) [OF refl NoMatch] show ?thesis
      by (simp add: scan_loop.simps [of s projects] split: list.splits)
  next
    case (Match r ps')
    with 1(2) [OF refl Match] 1(3) [OF refl Match] show ?thesis
      by (simp add: scan_loop.simps [of s projects] split: list.splits)
  next
    case (Abort e)
    with search_pattern_Abort [OF Abort] show ?thesis
      by (simp add: scan_loop.simps [of s projects])
  qed
qed

lemma scan_orphan_deliverable:
  assumes "deliverable_pattern (preParse s) = Some m"
  shows "scan_loop s [] = scan_loop (tl (preParse s)) []"
proof -
  obtain content r where m: "m = (content, r)" by (cases m)
  have "search_pattern [] (preParse s) = NoMatch []"
    by (simp add: search_pattern_def Or_deliverable [OF assms] m DeliverableParser_orphan
        del: Or_longest.simps)
  moreover have "preParse s \<noteq> []"
    using assms by (auto simp: deliverable_pattern_def element_pattern_def)
  ultimately show ?thesis
    by (simp add: scan_loop.simps [of s "[]"] split: list.splits)
qed

lemma scan_orphan_keytask:
  assumes "keytask_pattern (preParse s) = Some m"
    and "projects = [] \<or> deliverables (last projects) = []"
  shows "scan_loop s projects = scan_loop (tl (preParse s)) projects"
proof -
  obtain content r where m: "m = (content, r)" by (cases m)
  have "search_pattern projects (preParse s) = NoMatch projects"
    by (simp add: search_pattern_def Or_keytask [OF assms(1)] m KeyTaskParser_orphan [OF assms(2)]
        del: Or_longest.simps)
  moreover have "preParse s \<noteq> []"
    using assms by (auto simp: keytask_pattern_def element_pattern_def)
  ultimately show ?thesis
    by (simp add: scan_loop.simps [of s projects] split: list.splits)
qed


section \<open>The end-to-end scenario\<close>

text \<open>
  C1, as the specification states it: the four lines
  \<^verbatim>\<open>\keyproject[][P1]{2020}{Proj One}\<close>, \<^verbatim>\<open>\deliverable[][D1]{2021}{Deliv One}\<close>,
  \<^verbatim>\<open>\keytask[][T1]{2021}{Task One}\<close>, \<^verbatim>\<open>\prereq{\deliverableref{D0}}\<close> yield one project
  with one deliverable with one key task. They do not: each pattern has one group in
  square brackets, so after \<^verbatim>\<open>[]\<close> a brace is expected where \<^verbatim>\<open>[P1]\<close> stands, none of
  the first three commands matches, the handler of \<^verbatim>\<open>\prereq\<close> finds no project, and
  the result is the empty list.
\<close>

theorem scenario_two_square_groups_counterexample:
  "parse_projects
     (bs # ''keyproject[][P1]{2020}{Proj One}'' @ [CHR 0x0A] @
      bs # ''deliverable[][D1]{2021}{Deliv One}'' @ [CHR 0x0A] @
      bs # ''keytask[][T1]{2021}{Task One}'' @ [CHR 0x0A] @
      bs # ''prereq{'' @ bs # ''deliverableref{D0}}'') = Inr []"
  by code_simp

text \<open>
  C1, amended: the same four lines with one group in square brackets each,
  \<^verbatim>\<open>\keyproject[P1]{2020}{Proj One}\<close>, \<^verbatim>\<open>\deliverable[D1]{2021}{Deliv One}\<close>,
  \<^verbatim>\<open>\keytask[T1]{2021}{Task One}\<close>, \<^verbatim>\<open>\prereq{\deliverableref{D0}}\<close>, yield exactly one
  project with code P1 and name Proj One, which holds exactly one deliverable with code
  D1, name Deliv One and the prerequisites \<^verbatim>\<open>['deliverable:D0']\<close>, which holds exactly
  one key task with code T1 and name Task One.
\<close>

theorem scenario_one_square_group:
  "parse_projects
     (bs # ''keyproject[P1]{2020}{Proj One}'' @ [CHR 0x0A] @
      bs # ''deliverable[D1]{2021}{Deliv One}'' @ [CHR 0x0A] @
      bs # ''keytask[T1]{2021}{Task One}'' @ [CHR 0x0A] @
      bs # ''prereq{'' @ bs # ''deliverableref{D0}}'') =
   Inr [\<lparr>name = ''Proj One'', code = ''P1'', date = ''2020'',
         deliverables =
           [\<lparr>name = ''Deliv One'', code = ''D1'', date = ''2021'',
              keytasks = [\<lparr>name = ''Task One'', code = ''T1'', date = ''2021''\<rparr>],
              prereqs = [''deliverable:D0'']\<rparr>]\<rparr>]"
  by code_simp

section \<open>The empty prerequisite command\<close>

text \<open>
  C8: a \<^verbatim>\<open>\prereq\<close> command whose group is empty is ignored: its handler returns with
  the list of projects as it was, whatever the list is, the empty list and a last
  project without deliverables included, since the test for the empty content comes
  before the two lookups. So \<^verbatim>\<open>\prereq{}\<close> alone parses to the empty list without an
  error, and before the first project it changes nothing.
\<close>

theorem empty_prereq_ignored:
  "PreReqParser_call projects [t0, Grp []] = Returned projects
   \<and> PreReqParser_call [] [t0, Grp []] = Returned []
   \<and> parse_projects (bs # ''prereq{}'') = Inr []
   \<and> parse_projects (bs # ''prereq{ }'' @ bs # ''keyproject[P]{d}{n}'') =
       Inr [\<lparr>name = ''n'', code = ''P'', date = ''d'', deliverables = []\<rparr>]"
proof -
  have a: "PreReqParser_call ps [t0, Grp []] = Returned ps" for ps
    by (simp add: PreReqParser_call_def)
  have b: "parse_projects (bs # ''prereq{}'') = Inr []"
    by code_simp
  have c: "parse_projects (bs # ''prereq{ }'' @ bs # ''keyproject[P]{d}{n}'') =
       Inr [\<lparr>name = ''n'', code = ''P'', date = ''d'', deliverables = []\<rparr>]"
    by code_simp
  from a b c show ?thesis by simp
qed

section \<open>Commands without an open parent\<close>

text \<open>
  C4, as the specification states it: a \<^verbatim>\<open>deliverable\<close> command before any
  \<^verbatim>\<open>keyproject\<close> makes the parse fail with an error, and so does a \<^verbatim>\<open>keytask\<close>
  before any \<^verbatim>\<open>deliverable\<close>; no result is returned. The code has no such error: the
  lookup \<^verbatim>\<open>self.projects[-1]\<close> raises \<^verbatim>\<open>IndexError\<close> inside a parse action, the
  scanner takes that for a failed match, and \<^verbatim>\<open>parse_projects\<close> returns the list
  built from the other commands.
\<close>

theorem orphans_reported_counterexample:
  "parse_projects (bs # ''deliverable[D1]{2021}{Deliv One}'') = Inr []
   \<and> parse_projects (bs # ''deliverable[][D1]{2021}{Deliv One}'') = Inr []
   \<and> parse_projects
        (bs # ''deliverable[D1]{2021}{Deliv One}'' @ bs # ''keyproject[P1]{2020}{Proj One}'') =
       Inr [\<lparr>name = ''Proj One'', code = ''P1'', date = ''2020'', deliverables = []\<rparr>]
   \<and> parse_projects
        (bs # ''keyproject[P1]{2020}{Proj One}'' @ bs # ''keytask[T1]{2021}{Task One}'') =
       Inr [\<lparr>name = ''Proj One'', code = ''P1'', date = ''2020'', deliverables = []\<rparr>]"
  by code_simp

text \<open>
  C4, amended: a \<^verbatim>\<open>deliverable\<close> command met while the list of projects is empty, and a
  \<^verbatim>\<open>keytask\<close> command met while there is no project or the last project has no
  deliverable, is dropped without an error. Its handler raises \<^verbatim>\<open>IndexError\<close> and leaves
  the list as it was; the scan goes on one character after the start of the command
  with the same list; and no text makes \<^verbatim>\<open>parse_projects\<close> fail with \<^verbatim>\<open>IndexError\<close>.
\<close>

theorem orphan_commands_dropped:
  "DeliverableParser_call [] content = Raised IndexError []
   \<and> (projects = [] \<or> deliverables (last projects) = [] \<longrightarrow>
        KeyTaskParser_call projects content = Raised IndexError projects)
   \<and> (deliverable_pattern (preParse s) = Some m \<longrightarrow>
        scan_loop s [] = scan_loop (tl (preParse s)) [])
   \<and> (keytask_pattern (preParse s) = Some m
        \<and> (projects = [] \<or> deliverables (last projects) = []) \<longrightarrow>
        scan_loop s projects = scan_loop (tl (preParse s)) projects)
   \<and> parse_projects text \<noteq> Inl IndexError"
  using DeliverableParser_orphan KeyTaskParser_orphan scan_orphan_deliverable
    scan_orphan_keytask scan_loop_no_IndexError
  by (simp add: parse_projects_def scanString_def)

theorem orphan_commands_dropped_witness:
  "deliverable_pattern (preParse (bs # ''deliverable[D]{d}{n}'' @ bs # ''keyproject[P]{d}{n}'')) =
     Some ([Str (bs # ''deliverable''), Grp [Str ''D''], Grp [Str ''d''], Grp [Str ''n'']],
           bs # ''keyproject[P]{d}{n}'')
   \<and> scan_loop (bs # ''deliverable[D]{d}{n}'' @ bs # ''keyproject[P]{d}{n}'') [] =
       scan_loop (''deliverable[D]{d}{n}'' @ bs # ''keyproject[P]{d}{n}'') []
   \<and> keytask_pattern (preParse (bs # ''keytask[T]{d}{n}'')) =
     Some ([Str (bs # ''keytask''), Grp [Str ''T''], Grp [Str ''d''], Grp [Str ''n'']], [])
   \<and> deliverables (last [\<lparr>name = ''n'', code = ''P'', date = ''d'', deliverables = []\<rparr>]) = []
   \<and> scan_loop (bs # ''keytask[T]{d}{n}'')
         [\<lparr>name = ''n'', code = ''P'', date = ''d'', deliverables = []\<rparr>] =
       scan_loop ''keytask[T]{d}{n}''
         [\<lparr>name = ''n'', code = ''P'', date = ''d'', deliverables = []\<rparr>]
   \<and> KeyTaskParser_call
         [\<lparr>name = ''n'', code = ''P'', date = ''d'', deliverables = []\<rparr>]
         [Str (bs # ''keytask''), Grp [Str ''T''], Grp [Str ''d''], Grp [Str ''n'']] =
       Raised IndexError [\<lparr>name = ''n'', code = ''P'', date = ''d'', deliverables = []\<rparr>]"
proof -
  have d: "deliverable_pattern (preParse (bs # ''deliverable[D]{d}{n}'' @ bs # ''keyproject[P]{d}{n}'')) =
     Some ([Str (bs # ''deliverable''), Grp [Str ''D''], Grp [Str ''d''], Grp [Str ''n'']],
           bs # ''keyproject[P]{d}{n}'')"
    by code_simp
  have k: "keytask_pattern (preParse (bs # ''keytask[T]{d}{n}'')) =
     Some ([Str (bs # ''keytask''), Grp [Str ''T''], Grp [Str ''d''], Grp [Str ''n'']], [])"
    by code_simp
  have p1: "tl (preParse (bs # ''deliverable[D]{d}{n}'' @ bs # ''keyproject[P]{d}{n}'')) =
      ''deliverable[D]{d}{n}'' @ bs # ''keyproject[P]{d}{n}''"
    by code_simp
  have p2: "tl (preParse (bs # ''keytask[T]{d}{n}'')) = ''keytask[T]{d}{n}''"
    by code_simp
  have e: "deliverables (last [\<lparr>name = ''n'', code = ''P'', date = ''d'', deliverables = []\<rparr>]) = []"
    by simp
  from orphan_commands_dropped
    [of "[]" "[\<lparr>name = ''n'', code = ''P'', date = ''d'', deliverables = []\<rparr>]"
      "bs # ''deliverable[D]{d}{n}'' @ bs # ''keyproject[P]{d}{n}''"
      "([Str (bs # ''deliverable''), Grp [Str ''D''], Grp [Str ''d''], Grp [Str ''n'']],
           bs # ''keyproject[P]{d}{n}'')" "[]"]
    d p1
  have a: "scan_loop (bs # ''deliverable[D]{d}{n}'' @ bs # ''keyproject[P]{d}{n}'') [] =
       scan_loop (''deliverable[D]{d}{n}'' @ bs # ''keyproject[P]{d}{n}'') []"
    by simp
  from orphan_commands_dropped
    [of "[Str (bs # ''keytask''), Grp [Str ''T''], Grp [Str ''d''], Grp [Str ''n'']]" "[\<lparr>name = ''n'', code = ''P'', date = ''d'', deliverables = []\<rparr>]"
      "bs # ''keytask[T]{d}{n}''"
      "([Str (bs # ''keytask''), Grp [Str ''T''], Grp [Str ''d''], Grp [Str ''n'']], [])" "[]"]
    e
  have c: "KeyTaskParser_call
         [\<lparr>name = ''n'', code = ''P'', date = ''d'', deliverables = []\<rparr>]
         [Str (bs # ''keytask''), Grp [Str ''T''], Grp [Str ''d''], Grp [Str ''n'']] =
       Raised IndexError [\<lparr>name = ''n'', code = ''P'', date = ''d'', deliverables = []\<rparr>]"
    by blast
  from orphan_commands_dropped
    [of "[]" "[\<lparr>name = ''n'', code = ''P'', date = ''d'', deliverables = []\<rparr>]"
      "bs # ''keytask[T]{d}{n}''"
      "([Str (bs # ''keytask''), Grp [Str ''T''], Grp [Str ''d''], Grp [Str ''n'']], [])" "[]"]
    k p2 e
  have b: "scan_loop (bs # ''keytask[T]{d}{n}'')
         [\<lparr>name = ''n'', code = ''P'', date = ''d'', deliverables = []\<rparr>] =
       scan_loop ''keytask[T]{d}{n}''
         [\<lparr>name = ''n'', code = ''P'', date = ''d'', deliverables = []\<rparr>]"
    by simp
  from d a k e b c show ?thesis by blast
qed

section \<open>The bracket matcher and the nested groups\<close>

text \<open>
  Where \<open>span_of\<close> gives an answer other than \<open>Beyond\<close>, \<open>count_span\<close> gives the same,
  and \<open>nestedExpr\<close> matches exactly the groups that counting closes, leaving the same
  text.
\<close>

lemma span_of_counts:
  "span_of opener closer d s \<noteq> Beyond \<Longrightarrow>
   count_span opener closer d s =
     (case span_of opener closer d s of Closes r \<Rightarrow> Some r | other \<Rightarrow> None)"
  by (induction opener closer d s rule: span_of.induct) (auto split: nat.splits if_splits)

lemma white_not_quote: "x \<in> set DEFAULT_WHITE_CHARS \<Longrightarrow> \<not> quote_char x"
  by (simp add: DEFAULT_WHITE_CHARS_def quote_char_def) blast

lemma preParse_idem: "preParse (preParse s) = preParse s"
  unfolding preParse_def by (induction s) simp_all

lemma preParse_Cons_white: "x \<in> set DEFAULT_WHITE_CHARS \<Longrightarrow> preParse (x # xs) = preParse xs"
  by (simp add: preParse_def)

lemma preParse_Cons_other: "x \<notin> set DEFAULT_WHITE_CHARS \<Longrightarrow> preParse (x # xs) = x # xs"
  by (simp add: preParse_def)

lemma preParse_hd: "preParse s = x # xs \<Longrightarrow> x \<notin> set DEFAULT_WHITE_CHARS"
  unfolding preParse_def by (metis hd_dropWhile list.sel(1) list.distinct(1))

lemma nestedExpr_preParse: "nestedExpr opener closer (preParse s) = nestedExpr opener closer s"
  by (simp add: nestedExpr.simps [of opener closer s] nestedExpr.simps [of opener closer "preParse s"]
      preParse_idem)

lemma span_of_preParse:
  "brackets opener closer \<Longrightarrow> span_of opener closer d (preParse s) = span_of opener closer d s"
proof (induction s)
  case Nil
  then show ?case by (simp add: preParse_def)
next
  case (Cons x xs)
  show ?case
  proof (cases "x \<in> set DEFAULT_WHITE_CHARS")
    case True
    with Cons.prems have "x \<noteq> opener" "x \<noteq> closer" "\<not> quote_char x"
      by (auto simp: brackets_def white_not_quote)
    with True Cons show ?thesis by (simp add: preParse_Cons_white)
  next
    case False
    then show ?thesis by (simp add: preParse_Cons_other)
  qed
qed

lemma quotedString_no_quote: "\<not> quote_char x \<Longrightarrow> quotedString (x # xs) = None"
  by (simp add: quotedString_def quote_char_def)

lemma span_of_not_Beyond_hd: "span_of opener closer d (x # xs) \<noteq> Beyond \<Longrightarrow> \<not> quote_char x"
  by (auto split: if_splits)

lemma content_expr_span:
  "span_of opener closer d s \<noteq> Beyond \<Longrightarrow>
   content_expr opener closer s =
     (takeWhile (\<lambda>y. \<not> separator opener closer y) s, dropWhile (\<lambda>y. \<not> separator opener closer y) s)
   \<and> span_of opener closer d (dropWhile (\<lambda>y. \<not> separator opener closer y) s) = span_of opener closer d s"
proof (induction s)
  case Nil
  then show ?case by simp
next
  case (Cons x xs)
  from Cons.prems have nq: "\<not> quote_char x" by (rule span_of_not_Beyond_hd)
  then have q: "quotedString (x # xs) = None" by (rule quotedString_no_quote)
  show ?case
  proof (cases "separator opener closer x")
    case True
    with q show ?thesis by (auto simp: separator_def)
  next
    case False
    then have x: "x \<noteq> opener" "x \<noteq> closer" "x \<notin> set DEFAULT_WHITE_CHARS"
      by (auto simp: separator_def)
    with nq Cons.prems have "span_of opener closer d xs \<noteq> Beyond" by simp
    from Cons.IH [OF this] x nq q False show ?thesis by simp
  qed
qed

lemma ZeroOrMore_stop_empty:
  assumes "preParse s = []"
  shows "ZeroOrMore opener closer s = ([], s)"
proof -
  have "quotedString [] = None" by (simp add: quotedString_def)
  moreover have "preParse [] = []" by (simp add: preParse_def)
  then have "nestedExpr opener closer [] = None"
    by (simp add: nestedExpr.simps [of opener closer "[]"])
  ultimately show ?thesis using assms
    by (simp add: ZeroOrMore_unguarded [of opener closer s])
qed

lemma ZeroOrMore_stop_closer:
  assumes "preParse s = closer # xs" "\<not> quote_char closer" "opener \<noteq> closer"
  shows "ZeroOrMore opener closer s = ([], s)"
proof -
  have "quotedString (closer # xs) = None" using assms(2) by (rule quotedString_no_quote)
  moreover have "preParse (closer # xs) = closer # xs"
    using preParse_idem [of s] assms(1) by simp
  then have "nestedExpr opener closer (closer # xs) = None"
    using assms(3) by (simp add: nestedExpr.simps [of opener closer "closer # xs"])
  ultimately show ?thesis using assms(1)
    by (simp add: ZeroOrMore_unguarded [of opener closer s])
qed

lemma ZeroOrMore_opener:
  assumes "preParse s = opener # cs" "\<not> quote_char opener"
  shows "ZeroOrMore opener closer s =
     (case nestedExpr opener closer s of
        Some (g, r) \<Rightarrow> (let (ts, r') = ZeroOrMore opener closer r in (g # ts, r'))
      | None \<Rightarrow> ([], s))"
proof -
  have "quotedString (opener # cs) = None" using assms(2) by (rule quotedString_no_quote)
  moreover have "nestedExpr opener closer (opener # cs) = nestedExpr opener closer s"
    using nestedExpr_preParse [of opener closer s] assms(1) by simp
  ultimately show ?thesis using assms(1)
    by (simp add: ZeroOrMore_unguarded [of opener closer s] split: option.splits)
qed

lemma ZeroOrMore_word:
  assumes "brackets opener closer" "preParse s = x # xs" "\<not> separator opener closer x"
    and "span_of opener closer d s \<noteq> Beyond"
  shows "ZeroOrMore opener closer s =
     (let (ts, r') = ZeroOrMore opener closer (dropWhile (\<lambda>y. \<not> separator opener closer y) (x # xs))
      in (Str (strip (takeWhile (\<lambda>y. \<not> separator opener closer y) (x # xs))) # ts, r'))"
proof -
  have sp: "span_of opener closer d (x # xs) \<noteq> Beyond"
    using span_of_preParse [OF assms(1), of d s] assms(2,4) by simp
  then have "\<not> quote_char x" by (rule span_of_not_Beyond_hd)
  then have q: "quotedString (x # xs) = None" by (rule quotedString_no_quote)
  have "preParse (x # xs) = x # xs" using preParse_idem [of s] assms(2) by simp
  moreover from assms(3) have "x \<noteq> opener" by (simp add: separator_def)
  ultimately have n: "nestedExpr opener closer (x # xs) = None"
    by (simp add: nestedExpr.simps [of opener closer "x # xs"])
  note c = content_expr_span [OF sp, THEN conjunct1]
  from assms(3) have "takeWhile (\<lambda>y. \<not> separator opener closer y) (x # xs) =
      x # takeWhile (\<lambda>y. \<not> separator opener closer y) xs" by simp
  with q n c assms(2) show ?thesis
    by (simp add: ZeroOrMore_unguarded [of opener closer s] del: content_expr.simps)
qed

lemma group_of_loop:
  assumes b: "brackets opener closer" and p: "preParse s = opener # cs"
    and z: "ZeroOrMore opener closer cs = (ts, r1)"
    and sp: "span_of opener closer d r1 = span_of opener closer d cs"
    and stop: "preParse r1 = [] \<or> (\<exists>r2. preParse r1 = closer # r2)
        \<or> (\<exists>cs'. preParse r1 = opener # cs' \<and> span_of opener closer d r1 = Open_at_end)"
  shows "(case nestedExpr opener closer s of
            Some (g, r2) \<Rightarrow> g = Grp ts \<and> preParse r1 = closer # r2
              \<and> span_of opener closer d cs =
                  (case d of 0 \<Rightarrow> Closes r2 | Suc d' \<Rightarrow> span_of opener closer d' r2)
          | None \<Rightarrow> span_of opener closer d cs = Open_at_end)"
proof -
  from b have oc: "opener \<noteq> closer" and nq: "\<not> quote_char closer" by (simp_all add: brackets_def)
  note sr = span_of_preParse [OF b, of d r1]
  from stop consider (e) "preParse r1 = []" | (c) r2 where "preParse r1 = closer # r2"
    | (o) cs' where "preParse r1 = opener # cs'" "span_of opener closer d r1 = Open_at_end"
    by blast
  then show ?thesis
  proof cases
    case e
    with sr sp have "span_of opener closer d cs = Open_at_end" by simp
    with e p z show ?thesis by (simp add: nestedExpr.simps [of opener closer s])
  next
    case c
    with sr sp nq have "span_of opener closer d cs =
        (case d of 0 \<Rightarrow> Closes r2 | Suc d' \<Rightarrow> span_of opener closer d' r2)" by simp
    with c p z show ?thesis by (simp add: nestedExpr.simps [of opener closer s])
  next
    case o
    with sp oc p z show ?thesis by (simp add: nestedExpr.simps [of opener closer s])
  qed
qed

lemma loop_structure:
  assumes b: "brackets opener closer"
  shows "span_of opener closer d s \<noteq> Beyond \<Longrightarrow>
    \<exists>ts r1. ZeroOrMore opener closer s = (ts, r1)
      \<and> span_of opener closer d r1 = span_of opener closer d s
      \<and> (preParse r1 = [] \<or> (\<exists>r2. preParse r1 = closer # r2)
          \<or> (\<exists>cs'. preParse r1 = opener # cs' \<and> span_of opener closer d r1 = Open_at_end))"
proof (induction "length s" arbitrary: s d rule: less_induct)
  case less
  from b have oc: "opener \<noteq> closer" and nqo: "\<not> quote_char opener"
    and nqc: "\<not> quote_char closer" by (simp_all add: brackets_def)
  note sps = span_of_preParse [OF b, of d s]
  show ?case
  proof (cases "preParse s")
    case Nil
    then show ?thesis by (simp add: ZeroOrMore_stop_empty)
  next
    case (Cons x xs)
    with sps less.prems have spx: "span_of opener closer d (x # xs) \<noteq> Beyond" by simp
    have lx: "length (x # xs) \<le> length s" using length_preParse [of s] Cons by simp
    consider (c) "x = closer" | (o) "x = opener" | (w) "\<not> separator opener closer x"
      using preParse_hd [OF Cons] by (auto simp: separator_def)
    then show ?thesis
    proof cases
      case c
      with Cons nqc oc show ?thesis by (simp add: ZeroOrMore_stop_closer)
    next
      case o
      with spx nqo oc have dm: "d < max_nesting"
        and spi: "span_of opener closer (Suc d) xs \<noteq> Beyond"
        and spe: "span_of opener closer d (x # xs) = span_of opener closer (Suc d) xs"
        by (auto split: if_splits)
      from lx have "length xs < length s" by simp
      from less.hyps [OF this spi] obtain ts0 r0 where
        z0: "ZeroOrMore opener closer xs = (ts0, r0)"
        and s0: "span_of opener closer (Suc d) r0 = span_of opener closer (Suc d) xs"
        and st0: "preParse r0 = [] \<or> (\<exists>r2. preParse r0 = closer # r2)
          \<or> (\<exists>cs'. preParse r0 = opener # cs' \<and> span_of opener closer (Suc d) r0 = Open_at_end)"
        by blast
      from Cons o have p: "preParse s = opener # xs" by simp
      note g = group_of_loop [OF b p z0 s0 st0]
      note zo = ZeroOrMore_opener [OF p nqo, of closer]
      show ?thesis
      proof (cases "nestedExpr opener closer s")
        case None
        with g have "span_of opener closer (Suc d) xs = Open_at_end" by simp
        with spe sps Cons have "span_of opener closer d s = Open_at_end" by simp
        with None zo p show ?thesis by simp
      next
        case (Some gr)
        obtain gg r2 where gr: "gr = (gg, r2)" by (cases gr)
        from Some gr g have s2: "span_of opener closer (Suc d) xs = span_of opener closer d r2"
          by simp
        with spi have "span_of opener closer d r2 \<noteq> Beyond" by simp
        moreover have "length r2 < length s" using nestedExpr_shorter Some gr by blast
        ultimately obtain ts r1 where
          z: "ZeroOrMore opener closer r2 = (ts, r1)"
          and s1: "span_of opener closer d r1 = span_of opener closer d r2"
          and st: "preParse r1 = [] \<or> (\<exists>r2. preParse r1 = closer # r2)
            \<or> (\<exists>cs'. preParse r1 = opener # cs' \<and> span_of opener closer d r1 = Open_at_end)"
          using less.hyps by blast
        from zo Some gr z have "ZeroOrMore opener closer s = (gg # ts, r1)" by simp
        moreover from s1 s2 spe sps Cons
        have "span_of opener closer d r1 = span_of opener closer d s" by simp
        ultimately show ?thesis using st by blast
      qed
    next
      case w
      let ?r = "dropWhile (\<lambda>y. \<not> separator opener closer y) (x # xs)"
      from w have "?r = dropWhile (\<lambda>y. \<not> separator opener closer y) xs" by simp
      then have "length ?r \<le> length xs" by (simp add: length_dropWhile_le)
      with lx have lr: "length ?r < length s" by simp
      from content_expr_span [OF spx]
      have sr: "span_of opener closer d ?r = span_of opener closer d (x # xs)" by blast
      with spx have "span_of opener closer d ?r \<noteq> Beyond" by simp
      from less.hyps [OF lr this] obtain ts r1 where
        z: "ZeroOrMore opener closer ?r = (ts, r1)"
        and s1: "span_of opener closer d r1 = span_of opener closer d ?r"
        and st: "preParse r1 = [] \<or> (\<exists>r2. preParse r1 = closer # r2)
            \<or> (\<exists>cs'. preParse r1 = opener # cs' \<and> span_of opener closer d r1 = Open_at_end)"
        by blast
      from ZeroOrMore_word [OF b Cons w less.prems] z
      have "ZeroOrMore opener closer s =
          (Str (strip (takeWhile (\<lambda>y. \<not> separator opener closer y) (x # xs))) # ts, r1)"
        by simp
      moreover from s1 sr sps Cons
      have "span_of opener closer d r1 = span_of opener closer d s" by simp
      ultimately show ?thesis using st by blast
    qed
  qed
qed

lemma group_span_nestedExpr:
  assumes b: "brackets opener closer" and p: "preParse s = opener # cs"
    and sp: "span_of opener closer 0 cs \<noteq> Beyond"
  shows "(case nestedExpr opener closer s of
            Some (g, r) \<Rightarrow> span_of opener closer 0 cs = Closes r
              \<and> (\<exists>ts r1. ZeroOrMore opener closer cs = (ts, r1) \<and> g = Grp ts
                    \<and> preParse r1 = closer # r)
          | None \<Rightarrow> span_of opener closer 0 cs = Open_at_end)"
proof -
  from loop_structure [OF b sp] obtain ts r1 where
    z: "ZeroOrMore opener closer cs = (ts, r1)"
    and s1: "span_of opener closer 0 r1 = span_of opener closer 0 cs"
    and st: "preParse r1 = [] \<or> (\<exists>r2. preParse r1 = closer # r2)
        \<or> (\<exists>cs'. preParse r1 = opener # cs' \<and> span_of opener closer 0 r1 = Open_at_end)"
    by blast
  from group_of_loop [OF b p z s1 st] z show ?thesis
    by (auto split: option.splits)
qed

lemma group_span_Closes:
  assumes "brackets opener closer" "group_span opener closer s = Closes r"
  shows "\<exists>g. nestedExpr opener closer s = Some (g, r)"
proof -
  from assms(2) obtain cs where p: "preParse s = opener # cs"
    and sp: "span_of opener closer 0 cs = Closes r"
    by (auto simp: group_span_def split: list.splits if_splits)
  then have "span_of opener closer 0 cs \<noteq> Beyond" by simp
  from group_span_nestedExpr [OF assms(1) p this] sp show ?thesis
    by (auto split: option.splits)
qed

lemma span_of_not_Absent: "span_of opener closer d s \<noteq> Absent"
  by (induction opener closer d s rule: span_of.induct) (auto split: nat.splits)

lemma group_span_fails:
  assumes "brackets opener closer"
    and "group_span opener closer s = Open_at_end \<or> group_span opener closer s = Absent"
  shows "nestedExpr opener closer s = None"
proof (cases "preParse s")
  case Nil
  then show ?thesis by (simp add: nestedExpr.simps [of opener closer s])
next
  case (Cons x xs)
  show ?thesis
  proof (cases "x = opener")
    case False
    with Cons show ?thesis by (simp add: nestedExpr.simps [of opener closer s])
  next
    case True
    with Cons assms(2) span_of_not_Absent [of opener closer 0 xs]
    have sp: "span_of opener closer 0 xs = Open_at_end"
      by (simp add: group_span_def)
    then have "span_of opener closer 0 xs \<noteq> Beyond" by simp
    from group_span_nestedExpr [OF assms(1) _ this, of s] Cons True sp show ?thesis
      by (auto split: option.splits)
  qed
qed

lemma brackets_square: "brackets CHR ''['' CHR '']''"
  by (simp add: brackets_def quote_char_def DEFAULT_WHITE_CHARS_def)

lemma brackets_brace: "brackets CHR ''{'' CHR ''}''"
  by (simp add: brackets_def quote_char_def DEFAULT_WHITE_CHARS_def)

lemma nestedExpr_SomeD:
  "nestedExpr opener closer s = Some (g, r) \<Longrightarrow>
   \<exists>cs ts r1. preParse s = opener # cs \<and> ZeroOrMore opener closer cs = (ts, r1)
     \<and> g = Grp ts \<and> preParse r1 = closer # r"
  by (auto simp: nestedExpr.simps [of opener closer s] split: list.splits if_splits prod.splits)

lemma ZeroOrMore_Nil: "ZeroOrMore opener closer s = ([], r) \<Longrightarrow> r = s"
  by (auto simp: ZeroOrMore_unguarded [of opener closer s] Let_def
      split: option.splits prod.splits list.splits)

lemma nested_span:
  assumes b: "brackets opener closer" and p: "preParse s = opener # xs"
    and sp: "span_of opener closer (Suc d) xs \<noteq> Beyond"
    and n: "nestedExpr opener closer s = Some (g, r2)"
  shows "span_of opener closer (Suc d) xs = span_of opener closer d r2"
proof -
  from loop_structure [OF b sp] obtain ts r1 where
    z: "ZeroOrMore opener closer xs = (ts, r1)"
    and s1: "span_of opener closer (Suc d) r1 = span_of opener closer (Suc d) xs"
    and st: "preParse r1 = [] \<or> (\<exists>r2. preParse r1 = closer # r2)
        \<or> (\<exists>cs'. preParse r1 = opener # cs' \<and> span_of opener closer (Suc d) r1 = Open_at_end)"
    by blast
  from group_of_loop [OF b p z s1 st] n show ?thesis by simp
qed

lemma command_span_Closes:
  assumes "command_span lit s = Closes r"
  shows "\<exists>g1 g2 g3 r1 r2.
      group_span CHR ''['' CHR '']'' (drop (length lit) s) = Closes r1
      \<and> nestedExpr CHR ''['' CHR '']'' (drop (length lit) s) = Some (g1, r1)
      \<and> group_span CHR ''{'' CHR ''}'' r1 = Closes r2
      \<and> nestedExpr CHR ''{'' CHR ''}'' r1 = Some (g2, r2)
      \<and> group_span CHR ''{'' CHR ''}'' r2 = Closes r
      \<and> nestedExpr CHR ''{'' CHR ''}'' r2 = Some (g3, r)
      \<and> element_pattern lit s = Some ([Str lit, g1, g2, g3], r)"
proof -
  from assms have p: "prefix lit s"
    by (simp add: command_span_def split: if_splits)
  from assms p obtain r1 where s1: "group_span CHR ''['' CHR '']'' (drop (length lit) s) = Closes r1"
    by (cases "group_span CHR ''['' CHR '']'' (drop (length lit) s)")
      (simp_all add: command_span_def)
  from assms p s1 obtain r2 where s2: "group_span CHR ''{'' CHR ''}'' r1 = Closes r2"
    by (cases "group_span CHR ''{'' CHR ''}'' r1") (simp_all add: command_span_def)
  from assms p s1 s2 have s3: "group_span CHR ''{'' CHR ''}'' r2 = Closes r"
    by (simp add: command_span_def)
  from group_span_Closes [OF brackets_square s1] obtain g1 where
    n1: "nestedExpr CHR ''['' CHR '']'' (drop (length lit) s) = Some (g1, r1)" by blast
  from group_span_Closes [OF brackets_brace s2] obtain g2 where
    n2: "nestedExpr CHR ''{'' CHR ''}'' r1 = Some (g2, r2)" by blast
  from group_span_Closes [OF brackets_brace s3] obtain g3 where
    n3: "nestedExpr CHR ''{'' CHR ''}'' r2 = Some (g3, r)" by blast
  have "element_pattern lit s = Some ([Str lit, g1, g2, g3], r)"
    by (simp add: element_pattern_def p n1 n2 n3)
  with s1 s2 s3 n1 n2 n3 show ?thesis by blast
qed

lemma command_span_fails:
  assumes "command_span lit s = Open_at_end \<or> command_span lit s = Absent"
  shows "element_pattern lit s = None"
proof (cases "prefix lit s")
  case False
  then show ?thesis by (simp add: element_pattern_def)
next
  case p: True
  show ?thesis
  proof (cases "group_span CHR ''['' CHR '']'' (drop (length lit) s)")
    case (Closes r1)
    from group_span_Closes [OF brackets_square Closes] obtain g1 where
      n1: "nestedExpr CHR ''['' CHR '']'' (drop (length lit) s) = Some (g1, r1)" by blast
    show ?thesis
    proof (cases "group_span CHR ''{'' CHR ''}'' r1")
      case c2: (Closes r2)
      from group_span_Closes [OF brackets_brace c2] obtain g2 where
        n2: "nestedExpr CHR ''{'' CHR ''}'' r1 = Some (g2, r2)" by blast
      from assms p Closes c2
      have "group_span CHR ''{'' CHR ''}'' r2 = Open_at_end
          \<or> group_span CHR ''{'' CHR ''}'' r2 = Absent"
        by (simp add: command_span_def)
      from group_span_fails [OF brackets_brace this] show ?thesis
        by (simp add: element_pattern_def p n1 n2)
    next
      case Open_at_end
      then have "nestedExpr CHR ''{'' CHR ''}'' r1 = None"
        using group_span_fails [OF brackets_brace] by blast
      then show ?thesis by (simp add: element_pattern_def p n1)
    next
      case Absent
      then have "nestedExpr CHR ''{'' CHR ''}'' r1 = None"
        using group_span_fails [OF brackets_brace] by blast
      then show ?thesis by (simp add: element_pattern_def p n1)
    next
      case Beyond
      with assms p Closes show ?thesis by (simp add: command_span_def)
    qed
  next
    case Open_at_end
    then have "nestedExpr CHR ''['' CHR '']'' (drop (length lit) s) = None"
      using group_span_fails [OF brackets_square] by blast
    then show ?thesis by (simp add: element_pattern_def p)
  next
    case Absent
    then have "nestedExpr CHR ''['' CHR '']'' (drop (length lit) s) = None"
      using group_span_fails [OF brackets_square] by blast
    then show ?thesis by (simp add: element_pattern_def p)
  next
    case Beyond
    with assms p show ?thesis by (simp add: command_span_def)
  qed
qed




section \<open>The shape of the three element commands\<close>

text \<open>
  C2, as the specification states it: \<^verbatim>\<open>keyproject\<close>, \<^verbatim>\<open>deliverable\<close> and \<^verbatim>\<open>keytask\<close> are
  recognized exactly when the literal is followed by \<^verbatim>\<open>[group][group]{group}{group}\<close>, the
  first group being ignored. A literal followed by exactly that sequence is not
  recognized, and one followed by \<^verbatim>\<open>[group]{group}{group}\<close> is.
\<close>

theorem four_groups_recognized_counterexample:
  "project_pattern (bs # ''keyproject[][P1]{2020}{Proj One}'') = None
   \<and> deliverable_pattern (bs # ''deliverable[][D1]{2021}{Deliv One}'') = None
   \<and> keytask_pattern (bs # ''keytask[][T1]{2021}{Task One}'') = None
   \<and> project_pattern (bs # ''keyproject[P1]{2020}{Proj One}'') =
       Some ([Str (bs # ''keyproject''), Grp [Str ''P1''], Grp [Str ''2020''],
              Grp [Str ''Proj'', Str ''One'']], [])"
  by code_simp

text \<open>
  C2, amended: each of the three commands is recognized exactly when its literal is
  followed by one group in square brackets and two groups in braces, each after
  optional white space, for groups that are read by counting: no quote character up
  to their closers and nesting within \<open>max_nesting\<close>. When counting closes the three
  groups one after the other, the pattern matches and leaves the text after the last
  closer; the match list is the literal at position 0, which the handlers do not read,
  and the three groups as the scanner reads them, of which position 1, the group in
  square brackets, is captured as code, position 2 as date and position 3 as name.
  When the literal is missing, or a group does not start or is still open where the
  input ends, the pattern does not match. Beyond these limits the two readings part:
  in \<^verbatim>\<open>\deliverable[D1]{LSST's first year}{DESC's analysis}\<close> counting closes both
  groups in braces, while the scanner reads from one apostrophe to the next as a
  quoted string, finds no second group in braces and does not match.
\<close>

theorem element_command_recognized:
  "(command_span lit s = Closes r \<longrightarrow>
      (\<exists>g1 g2 g3 r1 r2.
         group_span CHR ''['' CHR '']'' (drop (length lit) s) = Closes r1
         \<and> nestedExpr CHR ''['' CHR '']'' (drop (length lit) s) = Some (g1, r1)
         \<and> group_span CHR ''{'' CHR ''}'' r1 = Closes r2
         \<and> nestedExpr CHR ''{'' CHR ''}'' r1 = Some (g2, r2)
         \<and> group_span CHR ''{'' CHR ''}'' r2 = Closes r
         \<and> nestedExpr CHR ''{'' CHR ''}'' r2 = Some (g3, r)
         \<and> element_pattern lit s = Some ([Str lit, g1, g2, g3], r)
         \<and> parse [Str lit, g1, g2, g3] =
             Inr \<lparr>name = match_to_string g3, code = match_to_string g1,
                  date = match_to_string g2\<rparr>))
   \<and> (command_span lit s = Open_at_end \<or> command_span lit s = Absent \<longrightarrow>
        element_pattern lit s = None)
   \<and> project_pattern = element_pattern (bs # ''keyproject'')
   \<and> deliverable_pattern = element_pattern (bs # ''deliverable'')
   \<and> keytask_pattern = element_pattern (bs # ''keytask'')
   \<and> count_span CHR ''{'' CHR ''}'' 0
        (''LSST'' @ [CHR 0x27] @ ''s first year}{DESC'' @ [CHR 0x27] @ ''s analysis}'') =
       Some (''{DESC'' @ [CHR 0x27] @ ''s analysis}'')
   \<and> count_span CHR ''{'' CHR ''}'' 0 (''DESC'' @ [CHR 0x27] @ ''s analysis}'') = Some []
   \<and> command_span (bs # ''deliverable'')
        (bs # ''deliverable[D1]{LSST'' @ [CHR 0x27] @ ''s first year}{DESC'' @ [CHR 0x27] @
         ''s analysis}'') = Beyond
   \<and> deliverable_pattern
        (bs # ''deliverable[D1]{LSST'' @ [CHR 0x27] @ ''s first year}{DESC'' @ [CHR 0x27] @
         ''s analysis}'') = None"
proof -
  have q: "count_span CHR ''{'' CHR ''}'' 0
        (''LSST'' @ [CHR 0x27] @ ''s first year}{DESC'' @ [CHR 0x27] @ ''s analysis}'') =
       Some (''{DESC'' @ [CHR 0x27] @ ''s analysis}'')"
    "count_span CHR ''{'' CHR ''}'' 0 (''DESC'' @ [CHR 0x27] @ ''s analysis}'') = Some []"
    "command_span (bs # ''deliverable'')
        (bs # ''deliverable[D1]{LSST'' @ [CHR 0x27] @ ''s first year}{DESC'' @ [CHR 0x27] @
         ''s analysis}'') = Beyond"
    "deliverable_pattern
        (bs # ''deliverable[D1]{LSST'' @ [CHR 0x27] @ ''s first year}{DESC'' @ [CHR 0x27] @
         ''s analysis}'') = None"
    by code_simp+
  have a: "\<exists>g1 g2 g3 r1 r2.
         group_span CHR ''['' CHR '']'' (drop (length lit) s) = Closes r1
         \<and> nestedExpr CHR ''['' CHR '']'' (drop (length lit) s) = Some (g1, r1)
         \<and> group_span CHR ''{'' CHR ''}'' r1 = Closes r2
         \<and> nestedExpr CHR ''{'' CHR ''}'' r1 = Some (g2, r2)
         \<and> group_span CHR ''{'' CHR ''}'' r2 = Closes r
         \<and> nestedExpr CHR ''{'' CHR ''}'' r2 = Some (g3, r)
         \<and> element_pattern lit s = Some ([Str lit, g1, g2, g3], r)
         \<and> parse [Str lit, g1, g2, g3] =
             Inr \<lparr>name = match_to_string g3, code = match_to_string g1,
                  date = match_to_string g2\<rparr>"
    if "command_span lit s = Closes r"
  proof -
    have "parse [Str lit, g1, g2, g3] =
        Inr \<lparr>name = match_to_string g3, code = match_to_string g1, date = match_to_string g2\<rparr>"
      for g1 g2 g3
      by (simp add: parse_def)
    with command_span_Closes [OF that] show ?thesis by blast
  qed
  have b: "element_pattern lit s = None"
    if "command_span lit s = Open_at_end \<or> command_span lit s = Absent"
    using that by (rule command_span_fails)
  have c: "project_pattern = element_pattern (bs # ''keyproject'')"
    "deliverable_pattern = element_pattern (bs # ''deliverable'')"
    "keytask_pattern = element_pattern (bs # ''keytask'')"
    by (simp_all only: project_pattern_def deliverable_pattern_def keytask_pattern_def)
  from a b c q show ?thesis by blast
qed

theorem element_command_recognized_witness:
  "command_span (bs # ''keytask'') (bs # ''keytask [T1] {2021}{Task {One}} rest'') = Closes '' rest''
   \<and> (\<exists>g1 g2 g3.
         element_pattern (bs # ''keytask'') (bs # ''keytask [T1] {2021}{Task {One}} rest'') =
           Some ([Str (bs # ''keytask''), g1, g2, g3], '' rest'')
         \<and> parse [Str (bs # ''keytask''), g1, g2, g3] =
             Inr \<lparr>name = match_to_string g3, code = match_to_string g1,
                  date = match_to_string g2\<rparr>)
   \<and> command_span (bs # ''keytask'') (bs # ''keytask [T1] {2021}{Task {One} rest'') = Open_at_end
   \<and> element_pattern (bs # ''keytask'') (bs # ''keytask [T1] {2021}{Task {One} rest'') = None
   \<and> command_span (bs # ''keytask'') (bs # ''keytask [T1] {2021} rest'') = Absent
   \<and> element_pattern (bs # ''keytask'') (bs # ''keytask [T1] {2021} rest'') = None"
proof -
  have a: "command_span (bs # ''keytask'') (bs # ''keytask [T1] {2021}{Task {One}} rest'') = Closes '' rest''"
    by code_simp
  have b: "command_span (bs # ''keytask'') (bs # ''keytask [T1] {2021}{Task {One} rest'') = Open_at_end"
    by code_simp
  have c: "command_span (bs # ''keytask'') (bs # ''keytask [T1] {2021} rest'') = Absent"
    by code_simp
  note t1 = element_command_recognized
    [of "bs # ''keytask''" "bs # ''keytask [T1] {2021}{Task {One}} rest''" "'' rest''"]
  note t2 = element_command_recognized
    [of "bs # ''keytask''" "bs # ''keytask [T1] {2021}{Task {One} rest''" "[]"]
  note t3 = element_command_recognized
    [of "bs # ''keytask''" "bs # ''keytask [T1] {2021} rest''" "[]"]
  from t1 a have 1: "\<exists>g1 g2 g3.
         element_pattern (bs # ''keytask'') (bs # ''keytask [T1] {2021}{Task {One}} rest'') =
           Some ([Str (bs # ''keytask''), g1, g2, g3], '' rest'')
         \<and> parse [Str (bs # ''keytask''), g1, g2, g3] =
             Inr \<lparr>name = match_to_string g3, code = match_to_string g1,
                  date = match_to_string g2\<rparr>"
    by blast
  from t2 b have 2: "element_pattern (bs # ''keytask'') (bs # ''keytask [T1] {2021}{Task {One} rest'') = None"
    by blast
  from t3 c have 3: "element_pattern (bs # ''keytask'') (bs # ''keytask [T1] {2021} rest'') = None"
    by blast
  from a b c 1 2 3 show ?thesis by blast
qed

section \<open>Where deliverables and key tasks are attached\<close>

text \<open>
  C5: a recognized project is appended to the list of projects, so the last project is
  the one created most recently. A recognized deliverable is appended to the
  deliverables of the last project and nothing else changes; a recognized key task is
  appended to the key tasks of the last deliverable of the last project. In particular
  a deliverable after two \<^verbatim>\<open>keyproject\<close> commands is attached to the second project.
\<close>

theorem attachment_rule:
  "ProjectParser_call projects [t0, c1, c2, c3] =
     Returned (projects @
       [\<lparr>name = match_to_string c3, code = match_to_string c1, date = match_to_string c2,
         deliverables = []\<rparr>])
   \<and> (projects \<noteq> [] \<longrightarrow>
        DeliverableParser_call projects [t0, c1, c2, c3] =
          Returned (butlast projects @
            [(last projects)\<lparr>deliverables := deliverables (last projects) @
               [\<lparr>name = match_to_string c3, code = match_to_string c1,
                 date = match_to_string c2, keytasks = [], prereqs = []\<rparr>]\<rparr>]))
   \<and> (projects \<noteq> [] \<and> deliverables (last projects) \<noteq> [] \<longrightarrow>
        KeyTaskParser_call projects [t0, c1, c2, c3] =
          Returned (butlast projects @
            [(last projects)\<lparr>deliverables := butlast (deliverables (last projects)) @
               [(last (deliverables (last projects)))\<lparr>keytasks :=
                  keytasks (last (deliverables (last projects))) @
                    [\<lparr>name = match_to_string c3, code = match_to_string c1,
                      date = match_to_string c2\<rparr>]\<rparr>]\<rparr>]))
   \<and> parse_projects
        (bs # ''keyproject[P1]{2020}{One}'' @ bs # ''keyproject[P2]{2021}{Two}'' @
         bs # ''deliverable[D1]{2022}{Deliv}'' @ bs # ''keytask[T1]{2023}{Task}'') =
       Inr [\<lparr>name = ''One'', code = ''P1'', date = ''2020'', deliverables = []\<rparr>,
            \<lparr>name = ''Two'', code = ''P2'', date = ''2021'', deliverables =
              [\<lparr>name = ''Deliv'', code = ''D1'', date = ''2022'',
                keytasks = [\<lparr>name = ''Task'', code = ''T1'', date = ''2023''\<rparr>],
                prereqs = []\<rparr>]\<rparr>]"
proof -
  have "parse_projects
        (bs # ''keyproject[P1]{2020}{One}'' @ bs # ''keyproject[P2]{2021}{Two}'' @
         bs # ''deliverable[D1]{2022}{Deliv}'' @ bs # ''keytask[T1]{2023}{Task}'') =
       Inr [\<lparr>name = ''One'', code = ''P1'', date = ''2020'', deliverables = []\<rparr>,
            \<lparr>name = ''Two'', code = ''P2'', date = ''2021'', deliverables =
              [\<lparr>name = ''Deliv'', code = ''D1'', date = ''2022'',
                keytasks = [\<lparr>name = ''Task'', code = ''T1'', date = ''2023''\<rparr>],
                prereqs = []\<rparr>]\<rparr>]"
    by code_simp
  then show ?thesis
    by (simp add: ProjectParser_call_def DeliverableParser_call_def KeyTaskParser_call_def
        parse_def update_last_def)
qed

theorem attachment_rule_witness:
  "[\<lparr>name = ''One'', code = ''P1'', date = ''2020'', deliverables = []\<rparr>,
    \<lparr>name = ''Two'', code = ''P2'', date = ''2021'', deliverables =
       [\<lparr>name = ''Old'', code = ''D0'', date = ''2021'', keytasks = [], prereqs = []\<rparr>]\<rparr>] \<noteq> []
   \<and> DeliverableParser_call
        [\<lparr>name = ''One'', code = ''P1'', date = ''2020'', deliverables = []\<rparr>,
         \<lparr>name = ''Two'', code = ''P2'', date = ''2021'', deliverables =
           [\<lparr>name = ''Old'', code = ''D0'', date = ''2021'', keytasks = [], prereqs = []\<rparr>]\<rparr>]
        [Str (bs # ''deliverable''), Grp [Str ''D1''], Grp [Str ''2022''], Grp [Str ''Deliv'']] =
      Returned
        [\<lparr>name = ''One'', code = ''P1'', date = ''2020'', deliverables = []\<rparr>,
         \<lparr>name = ''Two'', code = ''P2'', date = ''2021'', deliverables =
           [\<lparr>name = ''Old'', code = ''D0'', date = ''2021'', keytasks = [], prereqs = []\<rparr>,
            \<lparr>name = ''Deliv'', code = ''D1'', date = ''2022'', keytasks = [], prereqs = []\<rparr>]\<rparr>]
   \<and> KeyTaskParser_call
        [\<lparr>name = ''One'', code = ''P1'', date = ''2020'', deliverables = []\<rparr>,
         \<lparr>name = ''Two'', code = ''P2'', date = ''2021'', deliverables =
           [\<lparr>name = ''Old'', code = ''D0'', date = ''2021'', keytasks = [], prereqs = []\<rparr>]\<rparr>]
        [Str (bs # ''deliverable''), Grp [Str ''D1''], Grp [Str ''2022''], Grp [Str ''Deliv'']] =
      Returned
        [\<lparr>name = ''One'', code = ''P1'', date = ''2020'', deliverables = []\<rparr>,
         \<lparr>name = ''Two'', code = ''P2'', date = ''2021'', deliverables =
           [\<lparr>name = ''Old'', code = ''D0'', date = ''2021'',
             keytasks = [\<lparr>name = ''Deliv'', code = ''D1'', date = ''2022''\<rparr>],
             prereqs = []\<rparr>]\<rparr>]"
  using attachment_rule
    [of "[\<lparr>name = ''One'', code = ''P1'', date = ''2020'', deliverables = []\<rparr>,
         \<lparr>name = ''Two'', code = ''P2'', date = ''2021'', deliverables =
           [\<lparr>name = ''Old'', code = ''D0'', date = ''2021'', keytasks = [], prereqs = []\<rparr>]\<rparr>]"
      "Str (bs # ''deliverable'')" "Grp [Str ''D1'']" "Grp [Str ''2022'']" "Grp [Str ''Deliv'']"]
  by simp

section \<open>What a key task leaves unchanged\<close>

text \<open>
  C10: when the handler of \<^verbatim>\<open>keytask\<close> returns, the list of projects has the same
  length, all projects but the last are unchanged, the last project keeps its name,
  code and date and the number of its deliverables, all its deliverables but the last
  are unchanged, the last deliverable keeps its name, code, date and prerequisites, and
  its key tasks are the former ones followed by exactly one new key task.
\<close>

theorem keytask_frame:
  assumes "KeyTaskParser_call projects content = Returned projects'"
  shows "length projects' = length projects
    \<and> butlast projects' = butlast projects
    \<and> name (last projects') = name (last projects)
    \<and> code (last projects') = code (last projects)
    \<and> date (last projects') = date (last projects)
    \<and> length (deliverables (last projects')) = length (deliverables (last projects))
    \<and> butlast (deliverables (last projects')) = butlast (deliverables (last projects))
    \<and> name (last (deliverables (last projects'))) = name (last (deliverables (last projects)))
    \<and> code (last (deliverables (last projects'))) = code (last (deliverables (last projects)))
    \<and> date (last (deliverables (last projects'))) = date (last (deliverables (last projects)))
    \<and> prereqs (last (deliverables (last projects'))) =
        prereqs (last (deliverables (last projects)))
    \<and> (\<exists>task. keytasks (last (deliverables (last projects'))) =
          keytasks (last (deliverables (last projects))) @ [task])"
proof -
  from assms obtain info where i: "parse content = Inr info"
    and p: "projects \<noteq> []" and d: "deliverables (last projects) \<noteq> []"
    and r: "projects' = butlast projects @
            [(last projects)\<lparr>deliverables := butlast (deliverables (last projects)) @
               [(last (deliverables (last projects)))\<lparr>keytasks :=
                  keytasks (last (deliverables (last projects))) @ [info]\<rparr>]\<rparr>]"
    by (auto simp: KeyTaskParser_call_def update_last_def split: sum.splits if_splits)
  from p d show ?thesis unfolding r by simp
qed

theorem keytask_frame_witness:
  "KeyTaskParser_call
     [\<lparr>name = ''One'', code = ''P1'', date = ''2020'', deliverables =
        [\<lparr>name = ''A'', code = ''D1'', date = ''2021'', keytasks = [], prereqs = [''deliverable:X'']\<rparr>,
         \<lparr>name = ''B'', code = ''D2'', date = ''2022'',
           keytasks = [\<lparr>name = ''K'', code = ''T0'', date = ''2022''\<rparr>],
           prereqs = [''keyproject:Y'']\<rparr>]\<rparr>]
     [Str (bs # ''keytask''), Grp [Str ''T1''], Grp [Str ''2023''], Grp [Str ''Task'']] =
   Returned
     [\<lparr>name = ''One'', code = ''P1'', date = ''2020'', deliverables =
        [\<lparr>name = ''A'', code = ''D1'', date = ''2021'', keytasks = [], prereqs = [''deliverable:X'']\<rparr>,
         \<lparr>name = ''B'', code = ''D2'', date = ''2022'',
           keytasks = [\<lparr>name = ''K'', code = ''T0'', date = ''2022''\<rparr>,
                       \<lparr>name = ''Task'', code = ''T1'', date = ''2023''\<rparr>],
           prereqs = [''keyproject:Y'']\<rparr>]\<rparr>]
   \<and> prereqs (last (deliverables (last
        [\<lparr>name = ''One'', code = ''P1'', date = ''2020'', deliverables =
        [\<lparr>name = ''A'', code = ''D1'', date = ''2021'', keytasks = [], prereqs = [''deliverable:X'']\<rparr>,
         \<lparr>name = ''B'', code = ''D2'', date = ''2022'',
           keytasks = [\<lparr>name = ''K'', code = ''T0'', date = ''2022''\<rparr>,
                       \<lparr>name = ''Task'', code = ''T1'', date = ''2023''\<rparr>],
           prereqs = [''keyproject:Y'']\<rparr>]\<rparr>]))) = [''keyproject:Y'']"
proof -
  have h: "KeyTaskParser_call
     [\<lparr>name = ''One'', code = ''P1'', date = ''2020'', deliverables =
        [\<lparr>name = ''A'', code = ''D1'', date = ''2021'', keytasks = [], prereqs = [''deliverable:X'']\<rparr>,
         \<lparr>name = ''B'', code = ''D2'', date = ''2022'',
           keytasks = [\<lparr>name = ''K'', code = ''T0'', date = ''2022''\<rparr>],
           prereqs = [''keyproject:Y'']\<rparr>]\<rparr>]
     [Str (bs # ''keytask''), Grp [Str ''T1''], Grp [Str ''2023''], Grp [Str ''Task'']] =
   Returned
     [\<lparr>name = ''One'', code = ''P1'', date = ''2020'', deliverables =
        [\<lparr>name = ''A'', code = ''D1'', date = ''2021'', keytasks = [], prereqs = [''deliverable:X'']\<rparr>,
         \<lparr>name = ''B'', code = ''D2'', date = ''2022'',
           keytasks = [\<lparr>name = ''K'', code = ''T0'', date = ''2022''\<rparr>,
                       \<lparr>name = ''Task'', code = ''T1'', date = ''2023''\<rparr>],
           prereqs = [''keyproject:Y'']\<rparr>]\<rparr>]"
    by (simp add: KeyTaskParser_call_def parse_def update_last_def)
  from keytask_frame [OF h] h show ?thesis by simp
qed

section \<open>Parsing the same text twice\<close>

text \<open>
  The scan with the store changes the object at the address of its handlers and no
  other, and what it does to that object is what \<open>scan_loop\<close> does to its value.
\<close>

lemma search_pattern_in_sim:
  assumes "a < length h" "search_pattern_in a s h = (f, h')"
  shows "length h' = length h \<and> (\<forall>b. b \<noteq> a \<longrightarrow> h' ! b = h ! b)
     \<and> search_pattern (h ! a) s =
        (case f of Failed \<Rightarrow> NoMatch (h' ! a) | Matched r \<Rightarrow> Match r (h' ! a)
         | Aborted e \<Rightarrow> Abort e)"
proof (cases "Or_longest
             [(project_pattern, ProjectParser_call),
              (deliverable_pattern, DeliverableParser_call),
              (keytask_pattern, KeyTaskParser_call),
              (prereq_pattern, PreReqParser_call)] s None")
  case None
  with assms show ?thesis
    by (simp add: search_pattern_in_def search_pattern_def del: Or_longest.simps)
next
  case (Some m)
  obtain content r act where m: "m = ((content, r), act)" by (cases m) auto
  show ?thesis
  proof (cases "act (h ! a) content")
    case (Returned ps)
    with assms Some m show ?thesis
      by (auto simp: search_pattern_in_def search_pattern_def call_action_def
          simp del: Or_longest.simps)
  next
    case (Raised e ps)
    with assms Some m show ?thesis
      by (auto simp: search_pattern_in_def search_pattern_def call_action_def
          simp del: Or_longest.simps split: if_splits)
  qed
qed

lemma scan_loop_in_sim:
  "a < length h \<Longrightarrow> scan_loop_in a s h = (res, h') \<Longrightarrow>
   length h' = length h \<and> (\<forall>b. b \<noteq> a \<longrightarrow> h' ! b = h ! b)
   \<and> scan_loop s (h ! a) = (case res of None \<Rightarrow> Inr (h' ! a) | Some e \<Rightarrow> Inl e)"
proof (induction a s h arbitrary: res h' rule: scan_loop_in.induct)
  case (1 a s h)
  obtain f h1 where sp: "search_pattern_in a (preParse s) h = (f, h1)"
    by (cases "search_pattern_in a (preParse s) h") auto
  from search_pattern_in_sim [OF "1.prems"(1) sp] have
    len: "length h1 = length h" and frame: "\<forall>b. b \<noteq> a \<longrightarrow> h1 ! b = h ! b"
    and sim: "search_pattern (h ! a) (preParse s) =
        (case f of Failed \<Rightarrow> NoMatch (h1 ! a) | Matched r \<Rightarrow> Match r (h1 ! a)
         | Aborted e \<Rightarrow> Abort e)"
    by blast+
  from len "1.prems"(1) have a1: "a < length h1" by simp
  show ?case
  proof (cases f)
    case (Aborted e)
    with "1.prems"(2) sp have "res = Some e" "h' = h1"
      by (simp_all add: scan_loop_in.simps [of a s h])
    with len frame sim Aborted show ?thesis
      by (simp add: scan_loop.simps [of s "h ! a"])
  next
    case Failed
    show ?thesis
    proof (cases "preParse s")
      case Nil
      with "1.prems"(2) sp Failed have "res = None" "h' = h1"
        by (simp_all add: scan_loop_in.simps [of a s h])
      with len frame sim Failed Nil show ?thesis
        by (simp add: scan_loop.simps [of s "h ! a"])
    next
      case (Cons c cs)
      with "1.prems"(2) sp Failed have r: "scan_loop_in a cs h1 = (res, h')"
        by (simp add: scan_loop_in.simps [of a s h])
      from "1.IH"(1) [OF refl sp [symmetric] Failed Cons a1 r]
      have "length h' = length h1" "\<forall>b. b \<noteq> a \<longrightarrow> h' ! b = h1 ! b"
        "scan_loop cs (h1 ! a) = (case res of None \<Rightarrow> Inr (h' ! a) | Some e \<Rightarrow> Inl e)"
        by blast+
      with len frame sim Failed Cons show ?thesis
        by (simp add: scan_loop.simps [of s "h ! a"])
    qed
  next
    case (Matched r)
    show ?thesis
    proof (cases "length r < length s")
      case True
      with "1.prems"(2) sp Matched have rr: "scan_loop_in a r h1 = (res, h')"
        by (simp add: scan_loop_in.simps [of a s h])
      from "1.IH"(2) [OF refl sp [symmetric] Matched True a1 rr]
      have "length h' = length h1" "\<forall>b. b \<noteq> a \<longrightarrow> h' ! b = h1 ! b"
        "scan_loop r (h1 ! a) = (case res of None \<Rightarrow> Inr (h' ! a) | Some e \<Rightarrow> Inl e)"
        by blast+
      with len frame sim Matched True show ?thesis
        by (simp add: scan_loop.simps [of s "h ! a"])
    next
      case False
      show ?thesis
      proof (cases "preParse s")
        case Nil
        with "1.prems"(2) sp Matched False have "res = None" "h' = h1"
          by (simp_all add: scan_loop_in.simps [of a s h])
        with len frame sim Matched False Nil show ?thesis
          by (simp add: scan_loop.simps [of s "h ! a"])
      next
        case (Cons c cs)
        with "1.prems"(2) sp Matched False have rr: "scan_loop_in a cs h1 = (res, h')"
          by (simp add: scan_loop_in.simps [of a s h])
        from "1.IH"(3) [OF refl sp [symmetric] Matched False Cons a1 rr]
        have "length h' = length h1" "\<forall>b. b \<noteq> a \<longrightarrow> h' ! b = h1 ! b"
          "scan_loop cs (h1 ! a) = (case res of None \<Rightarrow> Inr (h' ! a) | Some e \<Rightarrow> Inl e)"
          by blast+
        with len frame sim Matched False Cons show ?thesis
          by (simp add: scan_loop.simps [of s "h ! a"])
      qed
    qed
  qed
qed

lemma parse_projects_in_sim:
  assumes "parse_projects_in text h = (res, h')"
  shows "length h' = Suc (length h) \<and> take (length h) h' = h
     \<and> (case res of
           Inr a \<Rightarrow> a = length h \<and> parse_projects text = Inr (h' ! a)
         | Inl e \<Rightarrow> parse_projects text = Inl e)"
proof -
  obtain r h2 where sc: "scan_loop_in (length h) (expandtabs 0 text) (h @ [[]]) = (r, h2)"
    by (cases "scan_loop_in (length h) (expandtabs 0 text) (h @ [[]])") auto
  have "length h < length (h @ [[]])" by simp
  from scan_loop_in_sim [OF this sc] have
    len: "length h2 = Suc (length h)"
    and frame: "\<forall>b. b \<noteq> length h \<longrightarrow> h2 ! b = (h @ [[]]) ! b"
    and sim: "scan_loop (expandtabs 0 text) [] =
        (case r of None \<Rightarrow> Inr (h2 ! length h) | Some e \<Rightarrow> Inl e)"
    by simp_all
  have tk: "take (length h) h2 = h"
  proof (rule nth_equalityI)
    show "length (take (length h) h2) = length h" using len by simp
    fix i assume "i < length (take (length h) h2)"
    then have i: "i < length h" by simp
    with frame have "h2 ! i = (h @ [[]]) ! i" by simp
    with i show "take (length h) h2 ! i = h ! i" by (simp add: nth_append)
  qed
  from assms sc have h': "h' = h2"
    and res: "res = (case r of None \<Rightarrow> Inr (length h) | Some e \<Rightarrow> Inl e)"
    by (auto simp: parse_projects_in_def new_list_def split: option.splits)
  from len tk sim show ?thesis unfolding h' res
    by (simp add: parse_projects_def scanString_def split: option.splits)
qed

text \<open>
  C7: when \<^verbatim>\<open>parse_projects\<close> returns for a text, a second call on the same text
  returns too, with another list object of the same value, and this value is the list
  that the scan of the text builds from the empty list. The second call leaves the
  list of the first call as it was, and each call leaves every object that existed
  before it unchanged: nothing of one call reaches the other.
\<close>

theorem parse_twice_no_shared_state:
  "parse_projects_in text h = (Inr a1, h1) \<longrightarrow>
     (\<exists>a2 h2. parse_projects_in text h1 = (Inr a2, h2)
        \<and> a2 \<noteq> a1 \<and> h2 ! a2 = h1 ! a1 \<and> h2 ! a1 = h1 ! a1
        \<and> parse_projects text = Inr (h1 ! a1)
        \<and> take (length h) h1 = h \<and> take (length h1) h2 = h1)"
proof
  assume first: "parse_projects_in text h = (Inr a1, h1)"
  from parse_projects_in_sim [OF first] have
    l1: "length h1 = Suc (length h)" and t1: "take (length h) h1 = h"
    and a1: "a1 = length h" and p1: "parse_projects text = Inr (h1 ! a1)"
    by simp_all
  obtain res h2 where second: "parse_projects_in text h1 = (res, h2)"
    by (cases "parse_projects_in text h1") auto
  from parse_projects_in_sim [OF second] have
    l2: "length h2 = Suc (length h1)" and t2: "take (length h1) h2 = h1"
    and r2: "case res of
           Inr a \<Rightarrow> a = length h1 \<and> parse_projects text = Inr (h2 ! a)
         | Inl e \<Rightarrow> parse_projects text = Inl e"
    by simp_all
  from r2 p1 obtain a2 where res: "res = Inr a2" and a2: "a2 = length h1"
    and p2: "parse_projects text = Inr (h2 ! a2)"
    by (cases res) auto
  from a1 a2 l1 have ne: "a2 \<noteq> a1" by simp
  from p1 p2 have eq: "h2 ! a2 = h1 ! a1" by simp
  have "h2 ! a1 = take (length h1) h2 ! a1" using a1 l1 by simp
  with t2 have keep: "h2 ! a1 = h1 ! a1" by simp
  from second res ne eq keep p1 t1 t2
  show "\<exists>a2 h2. parse_projects_in text h1 = (Inr a2, h2)
        \<and> a2 \<noteq> a1 \<and> h2 ! a2 = h1 ! a1 \<and> h2 ! a1 = h1 ! a1
        \<and> parse_projects text = Inr (h1 ! a1)
        \<and> take (length h) h1 = h \<and> take (length h1) h2 = h1"
    by blast
qed

theorem parse_twice_no_shared_state_witness:
  "parse_projects_in
      (bs # ''keyproject[P]{d}{n}'' @ bs # ''deliverable[D]{d}{m}'')
      [[\<lparr>name = ''old'', code = ''O'', date = ''d'', deliverables = []\<rparr>]] =
     (Inr 1,
      [[\<lparr>name = ''old'', code = ''O'', date = ''d'', deliverables = []\<rparr>],
       [\<lparr>name = ''n'', code = ''P'', date = ''d'', deliverables =
          [\<lparr>name = ''m'', code = ''D'', date = ''d'', keytasks = [], prereqs = []\<rparr>]\<rparr>]])
   \<and> (\<exists>a2 h2.
        parse_projects_in
          (bs # ''keyproject[P]{d}{n}'' @ bs # ''deliverable[D]{d}{m}'')
          [[\<lparr>name = ''old'', code = ''O'', date = ''d'', deliverables = []\<rparr>],
           [\<lparr>name = ''n'', code = ''P'', date = ''d'', deliverables =
              [\<lparr>name = ''m'', code = ''D'', date = ''d'', keytasks = [], prereqs = []\<rparr>]\<rparr>]] =
          (Inr a2, h2)
        \<and> a2 \<noteq> 1
        \<and> h2 ! a2 =
            [\<lparr>name = ''n'', code = ''P'', date = ''d'', deliverables =
              [\<lparr>name = ''m'', code = ''D'', date = ''d'', keytasks = [], prereqs = []\<rparr>]\<rparr>]
        \<and> h2 ! 1 =
            [\<lparr>name = ''n'', code = ''P'', date = ''d'', deliverables =
              [\<lparr>name = ''m'', code = ''D'', date = ''d'', keytasks = [], prereqs = []\<rparr>]\<rparr>])"
proof -
  have a: "parse_projects_in
      (bs # ''keyproject[P]{d}{n}'' @ bs # ''deliverable[D]{d}{m}'')
      [[\<lparr>name = ''old'', code = ''O'', date = ''d'', deliverables = []\<rparr>]] =
     (Inr 1,
      [[\<lparr>name = ''old'', code = ''O'', date = ''d'', deliverables = []\<rparr>],
       [\<lparr>name = ''n'', code = ''P'', date = ''d'', deliverables =
          [\<lparr>name = ''m'', code = ''D'', date = ''d'', keytasks = [], prereqs = []\<rparr>]\<rparr>]])"
    by code_simp
  let ?text = "bs # ''keyproject[P]{d}{n}'' @ bs # ''deliverable[D]{d}{m}''"
  let ?new = "[\<lparr>name = ''n'', code = ''P'', date = ''d'', deliverables =
          [\<lparr>name = ''m'', code = ''D'', date = ''d'', keytasks = [], prereqs = []\<rparr>]\<rparr>]"
  let ?h1 = "[[\<lparr>name = ''old'', code = ''O'', date = ''d'', deliverables = []\<rparr>], ?new]"
  note t = parse_twice_no_shared_state
    [of ?text "[[\<lparr>name = ''old'', code = ''O'', date = ''d'', deliverables = []\<rparr>]]" 1 ?h1]
  from t a have e: "\<exists>a2 h2. parse_projects_in ?text ?h1 = (Inr a2, h2)
        \<and> a2 \<noteq> 1 \<and> h2 ! a2 = ?h1 ! 1 \<and> h2 ! 1 = ?h1 ! 1"
    by blast
  have n: "?h1 ! 1 = ?new" by simp
  from e have "\<exists>a2 h2. parse_projects_in ?text ?h1 = (Inr a2, h2)
        \<and> a2 \<noteq> 1 \<and> h2 ! a2 = ?new \<and> h2 ! 1 = ?new"
    unfolding n .
  with a show ?thesis by blast
qed

section \<open>Commands with unterminated groups\<close>















section \<open>Prerequisites\<close>

text \<open>
  C3: under an open deliverable \<^verbatim>\<open>\prereq{\deliverableref{A,B} \keyprojectref{C}}\<close> is
  to append the prerequisites A, B and C. The handler skips a token that is the comma
  alone and strips commas from a reference token, so lists with commas are what it
  means to read; but the tokens of a group are separated at white space and brackets
  only. \<^verbatim>\<open>{A,B}\<close> is the one identifier \<^verbatim>\<open>A,B\<close>, \<^verbatim>\<open>{A, B}\<close> gives \<^verbatim>\<open>A,\<close> and \<^verbatim>\<open>B\<close>, and
  only \<^verbatim>\<open>{A , B}\<close> gives A and B. The format of the comment in the source, one
  identifier in each group and a comma between the references, is read as it is
  meant, and so is a \<^verbatim>\<open>\keyprojectref\<close> that comes first.
\<close>

theorem comma_list_prereqs_evaluated:
  "parse_projects
     (bs # ''keyproject[P]{d}{n}'' @ bs # ''deliverable[D]{d}{n}'' @
      bs # ''prereq{'' @ bs # ''deliverableref{A,B} '' @ bs # ''keyprojectref{C}}'') =
   Inr [\<lparr>name = ''n'', code = ''P'', date = ''d'', deliverables =
          [\<lparr>name = ''n'', code = ''D'', date = ''d'', keytasks = [],
            prereqs = [''deliverable:A,B'', ''keyproject:C'']\<rparr>]\<rparr>]
   \<and> parse_projects
     (bs # ''keyproject[P]{d}{n}'' @ bs # ''deliverable[D]{d}{n}'' @
      bs # ''prereq{'' @ bs # ''deliverableref{A, B} '' @ bs # ''keyprojectref{C}}'') =
   Inr [\<lparr>name = ''n'', code = ''P'', date = ''d'', deliverables =
          [\<lparr>name = ''n'', code = ''D'', date = ''d'', keytasks = [],
            prereqs = [''deliverable:A,'', ''deliverable:B'', ''keyproject:C'']\<rparr>]\<rparr>]
   \<and> parse_projects
     (bs # ''keyproject[P]{d}{n}'' @ bs # ''deliverable[D]{d}{n}'' @
      bs # ''prereq{'' @ bs # ''deliverableref{A , B} '' @ bs # ''keyprojectref{C}}'') =
   Inr [\<lparr>name = ''n'', code = ''P'', date = ''d'', deliverables =
          [\<lparr>name = ''n'', code = ''D'', date = ''d'', keytasks = [],
            prereqs = [''deliverable:A'', ''deliverable:B'', ''keyproject:C'']\<rparr>]\<rparr>]
   \<and> parse_projects
     (bs # ''keyproject[P]{d}{n}'' @ bs # ''deliverable[D]{d}{n}'' @
      bs # ''prereq{'' @ bs # ''deliverableref{TJP2-DC1-SW1}, '' @ bs # ''deliverableref{CI5}}'') =
   Inr [\<lparr>name = ''n'', code = ''P'', date = ''d'', deliverables =
          [\<lparr>name = ''n'', code = ''D'', date = ''d'', keytasks = [],
            prereqs = [''deliverable:TJP2-DC1-SW1'', ''deliverable:CI5'']\<rparr>]\<rparr>]
   \<and> parse_projects
     (bs # ''keyproject[P]{d}{n}'' @ bs # ''deliverable[D]{d}{n}'' @
      bs # ''prereq{'' @ bs # ''keyprojectref{C} '' @ bs # ''deliverableref{A,B}}'') =
   Inr [\<lparr>name = ''n'', code = ''P'', date = ''d'', deliverables =
          [\<lparr>name = ''n'', code = ''D'', date = ''d'', keytasks = [],
            prereqs = [''keyproject:C'', ''deliverable:A,B'']\<rparr>]\<rparr>]"
  by code_simp

section \<open>The captured fields and white space\<close>

lemma single_spaced_word:
  "w \<noteq> [] \<Longrightarrow> \<forall>c \<in> set w. c \<notin> set DEFAULT_WHITE_CHARS \<Longrightarrow> single_spaced w"
  by (induction w rule: single_spaced.induct) (auto simp: DEFAULT_WHITE_CHARS_def)

lemma single_spaced_append:
  "x \<noteq> [] \<Longrightarrow> single_spaced x \<Longrightarrow> y \<noteq> [] \<Longrightarrow> single_spaced y
   \<Longrightarrow> single_spaced (x @ CHR '' '' # y)"
proof (induction x rule: single_spaced.induct)
  case 1
  then show ?case by simp
next
  case (2 c)
  then show ?case by simp
next
  case (3 c d cs)
  then show ?case by (cases "d = CHR '' ''") auto
qed

lemma single_spaced_join:
  "xs \<noteq> [] \<Longrightarrow> \<forall>x \<in> set xs. x \<noteq> [] \<and> single_spaced x
   \<Longrightarrow> join '' '' xs \<noteq> [] \<and> single_spaced (join '' '' xs)"
proof (induction "'' ''" xs rule: join.induct)
  case 1
  then show ?case by simp
next
  case (2 x)
  then show ?case by simp
next
  case (3 x y ys)
  then have "join '' '' (y # ys) \<noteq> [] \<and> single_spaced (join '' '' (y # ys))" by simp
  with 3(3) show ?case by (simp add: single_spaced_append)
qed

lemma strip_chars_id:
  "s \<noteq> [] \<Longrightarrow> hd s \<notin> set cs \<Longrightarrow> last s \<notin> set cs \<Longrightarrow> strip_chars cs s = s"
proof -
  assume a: "s \<noteq> []" "hd s \<notin> set cs" "last s \<notin> set cs"
  then have "dropWhile (\<lambda>c. c \<in> set cs) s = s" by (cases s) auto
  moreover from a have "dropWhile (\<lambda>c. c \<in> set cs) (rev s) = rev s"
    by (cases "rev s") (auto simp: last_rev [symmetric] hd_rev)
  ultimately show ?thesis by (simp add: strip_chars_def)
qed

text \<open>
  The loop inside a group yields the words of the text it consumes, in order, and
  tokens without an empty group when no nested group of the text is empty.
\<close>

lemma separator_white: "x \<in> set DEFAULT_WHITE_CHARS \<Longrightarrow> separator opener closer x"
  by (simp add: separator_def)

lemma words_of_separator:
  "separator opener closer x \<Longrightarrow> words_of opener closer (x # xs) = words_of opener closer xs"
  by (simp add: words_of.simps [of opener closer "x # xs"] words_of.simps [of opener closer xs])

lemma words_of_word:
  "\<not> separator opener closer x \<Longrightarrow>
   words_of opener closer (x # xs) =
     takeWhile (\<lambda>y. \<not> separator opener closer y) (x # xs)
     # words_of opener closer (dropWhile (\<lambda>y. \<not> separator opener closer y) (x # xs))"
  by (simp add: words_of.simps [of opener closer "x # xs"])

lemma words_of_Nil: "words_of opener closer [] = []"
  by (simp add: words_of.simps [of opener closer "[]"])

lemma words_of_preParse: "words_of opener closer (preParse s) = words_of opener closer s"
proof (induction s)
  case Nil
  then show ?case by (simp add: preParse_def)
next
  case (Cons x xs)
  show ?case
  proof (cases "x \<in> set DEFAULT_WHITE_CHARS")
    case True
    with Cons show ?thesis
      by (simp add: preParse_Cons_white words_of_separator separator_white)
  next
    case False
    then show ?thesis by (simp add: preParse_Cons_other)
  qed
qed

lemma loop_words:
  assumes b: "brackets opener closer"
  shows "span_of opener closer d s \<noteq> Beyond \<Longrightarrow> ZeroOrMore opener closer s = (ts, r1) \<Longrightarrow>
    map strip (words_of opener closer s) =
      concat (map flatten ts) @ map strip (words_of opener closer r1)"
proof (induction "length s" arbitrary: s d ts r1 rule: less_induct)
  case less
  from b have oc: "opener \<noteq> closer" and nqo: "\<not> quote_char opener"
    and nqc: "\<not> quote_char closer" by (simp_all add: brackets_def)
  note sps = span_of_preParse [OF b, of d s]
  note z = \<open>ZeroOrMore opener closer s = (ts, r1)\<close>
  show ?case
  proof (cases "preParse s")
    case Nil
    with z show ?thesis by (simp add: ZeroOrMore_stop_empty)
  next
    case (Cons x xs)
    with sps less.prems have spx: "span_of opener closer d (x # xs) \<noteq> Beyond" by simp
    have lx: "length (x # xs) \<le> length s" using length_preParse [of s] Cons by simp
    have ws: "words_of opener closer s = words_of opener closer (x # xs)"
      using words_of_preParse [of opener closer s] Cons by simp
    consider (c) "x = closer" | (o) "x = opener" | (w) "\<not> separator opener closer x"
      using preParse_hd [OF Cons] by (auto simp: separator_def)
    then show ?thesis
    proof cases
      case c
      with Cons nqc oc z show ?thesis by (simp add: ZeroOrMore_stop_closer)
    next
      case o
      with spx nqo oc have spi: "span_of opener closer (Suc d) xs \<noteq> Beyond"
        by (auto split: if_splits)
      from Cons o have p: "preParse s = opener # xs" by simp
      note zo = ZeroOrMore_opener [OF p nqo, of closer]
      have wx: "words_of opener closer (x # xs) = words_of opener closer xs"
        using o by (simp add: words_of_separator separator_def)
      show ?thesis
      proof (cases "nestedExpr opener closer s")
        case None
        with zo z show ?thesis by simp
      next
        case (Some gr)
        obtain g r2 where gr: "gr = (g, r2)" by (cases gr)
        with Some have n: "nestedExpr opener closer s = Some (g, r2)" by simp
        from nestedExpr_SomeD [OF n] p obtain ts0 r0 where
          z0: "ZeroOrMore opener closer xs = (ts0, r0)" and g: "g = Grp ts0"
          and p0: "preParse r0 = closer # r2" by auto
        obtain ts' where z2: "ZeroOrMore opener closer r2 = (ts', r1)" and t: "ts = g # ts'"
          using zo n z by (auto split: prod.splits)
        from lx have l0: "length xs < length s" by simp
        have l2: "length r2 < length s" using nestedExpr_shorter n by blast
        have sp2: "span_of opener closer d r2 \<noteq> Beyond"
          using nested_span [OF b p spi n] spi by simp
        have "words_of opener closer r0 = words_of opener closer (closer # r2)"
          using words_of_preParse [of opener closer r0] p0 by simp
        also have "\<dots> = words_of opener closer r2"
          by (simp add: words_of_separator separator_def)
        finally have w0: "words_of opener closer r0 = words_of opener closer r2" .
        from less.hyps [OF l0 spi z0] w0
        have "map strip (words_of opener closer xs) =
            concat (map flatten ts0) @ map strip (words_of opener closer r2)" by simp
        also from less.hyps [OF l2 sp2 z2]
        have "map strip (words_of opener closer r2) =
            concat (map flatten ts') @ map strip (words_of opener closer r1)" .
        finally show ?thesis using ws wx t g by simp
      qed
    next
      case w
      let ?r = "dropWhile (\<lambda>y. \<not> separator opener closer y) (x # xs)"
      let ?t = "takeWhile (\<lambda>y. \<not> separator opener closer y) (x # xs)"
      from w have "?r = dropWhile (\<lambda>y. \<not> separator opener closer y) xs" by simp
      then have "length ?r \<le> length xs" by (simp add: length_dropWhile_le)
      with lx have lr: "length ?r < length s" by simp
      from content_expr_span [OF spx]
      have "span_of opener closer d ?r = span_of opener closer d (x # xs)" by blast
      with spx have spr: "span_of opener closer d ?r \<noteq> Beyond" by simp
      from ZeroOrMore_word [OF b Cons w less.prems(1)] z obtain ts' where
        z': "ZeroOrMore opener closer ?r = (ts', r1)" and t: "ts = Str (strip ?t) # ts'"
        by (auto split: prod.splits)
      from less.hyps [OF lr spr z']
      have "map strip (words_of opener closer ?r) =
          concat (map flatten ts') @ map strip (words_of opener closer r1)" .
      with ws words_of_word [OF w, of xs] t show ?thesis by simp
    qed
  qed
qed

lemma tidy_preParse:
  "brackets opener closer \<Longrightarrow> tidy opener closer d (preParse s) = tidy opener closer d s"
proof (induction s)
  case Nil
  then show ?case by (simp add: preParse_def)
next
  case (Cons x xs)
  show ?case
  proof (cases "x \<in> set DEFAULT_WHITE_CHARS")
    case True
    with Cons.prems have "x \<noteq> opener" "x \<noteq> closer" by (auto simp: brackets_def)
    with True Cons show ?thesis by (simp add: preParse_Cons_white)
  next
    case False
    then show ?thesis by (simp add: preParse_Cons_other)
  qed
qed

lemma tidy_word:
  "tidy opener closer d (dropWhile (\<lambda>y. \<not> separator opener closer y) s) = tidy opener closer d s"
  by (induction s) (auto simp: separator_def)

lemma loop_tidy:
  assumes b: "brackets opener closer"
  shows "span_of opener closer d s \<noteq> Beyond \<Longrightarrow> tidy opener closer d s \<Longrightarrow>
    ZeroOrMore opener closer s = (ts, r1) \<Longrightarrow> list_all solid ts \<and> tidy opener closer d r1"
proof (induction "length s" arbitrary: s d ts r1 rule: less_induct)
  case less
  from b have oc: "opener \<noteq> closer" and nqo: "\<not> quote_char opener"
    and nqc: "\<not> quote_char closer" by (simp_all add: brackets_def)
  note sps = span_of_preParse [OF b, of d s]
  note z = \<open>ZeroOrMore opener closer s = (ts, r1)\<close>
  note td = \<open>tidy opener closer d s\<close>
  show ?case
  proof (cases "preParse s")
    case Nil
    with z td show ?thesis by (simp add: ZeroOrMore_stop_empty)
  next
    case (Cons x xs)
    with sps less.prems have spx: "span_of opener closer d (x # xs) \<noteq> Beyond" by simp
    have lx: "length (x # xs) \<le> length s" using length_preParse [of s] Cons by simp
    have tx: "tidy opener closer d (x # xs)"
      using tidy_preParse [OF b, of d s] Cons td by simp
    consider (c) "x = closer" | (o) "x = opener" | (w) "\<not> separator opener closer x"
      using preParse_hd [OF Cons] by (auto simp: separator_def)
    then show ?thesis
    proof cases
      case c
      with Cons nqc oc z td show ?thesis by (simp add: ZeroOrMore_stop_closer)
    next
      case o
      with spx nqo oc have spi: "span_of opener closer (Suc d) xs \<noteq> Beyond"
        by (auto split: if_splits)
      from o oc tx have ti: "tidy opener closer (Suc d) xs"
        and ne: "\<And>ys. preParse xs \<noteq> closer # ys"
        by (auto split: list.splits)
      from Cons o have p: "preParse s = opener # xs" by simp
      note zo = ZeroOrMore_opener [OF p nqo, of closer]
      show ?thesis
      proof (cases "nestedExpr opener closer s")
        case None
        with zo z td show ?thesis by simp
      next
        case (Some gr)
        obtain g r2 where gr: "gr = (g, r2)" by (cases gr)
        with Some have n: "nestedExpr opener closer s = Some (g, r2)" by simp
        from nestedExpr_SomeD [OF n] p obtain ts0 r0 where
          z0: "ZeroOrMore opener closer xs = (ts0, r0)" and g: "g = Grp ts0"
          and p0: "preParse r0 = closer # r2" by auto
        obtain ts' where z2: "ZeroOrMore opener closer r2 = (ts', r1)" and t: "ts = g # ts'"
          using zo n z by (auto split: prod.splits)
        from lx have l0: "length xs < length s" by simp
        have l2: "length r2 < length s" using nestedExpr_shorter n by blast
        have sp2: "span_of opener closer d r2 \<noteq> Beyond"
          using nested_span [OF b p spi n] spi by simp
        from less.hyps [OF l0 spi ti z0]
        have s0: "list_all solid ts0" and t0: "tidy opener closer (Suc d) r0" by simp_all
        have "ts0 \<noteq> []"
        proof
          assume "ts0 = []"
          with z0 have "r0 = xs" by (simp add: ZeroOrMore_Nil)
          with p0 ne show False by simp
        qed
        with s0 g have sg: "solid g" by simp
        from t0 have "tidy opener closer (Suc d) (closer # r2)"
          using tidy_preParse [OF b, of "Suc d" r0] p0 by simp
        then have t2: "tidy opener closer d r2" by simp
        from less.hyps [OF l2 sp2 t2 z2] sg t show ?thesis by simp
      qed
    next
      case w
      let ?r = "dropWhile (\<lambda>y. \<not> separator opener closer y) (x # xs)"
      let ?t = "takeWhile (\<lambda>y. \<not> separator opener closer y) (x # xs)"
      from w have "?r = dropWhile (\<lambda>y. \<not> separator opener closer y) xs" by simp
      then have "length ?r \<le> length xs" by (simp add: length_dropWhile_le)
      with lx have lr: "length ?r < length s" by simp
      from content_expr_span [OF spx]
      have "span_of opener closer d ?r = span_of opener closer d (x # xs)" by blast
      with spx have spr: "span_of opener closer d ?r \<noteq> Beyond" by simp
      have tr: "tidy opener closer d ?r" using tidy_word [of opener closer d "x # xs"] tx
        by simp
      from ZeroOrMore_word [OF b Cons w less.prems(1)] z obtain ts' where
        z': "ZeroOrMore opener closer ?r = (ts', r1)" and t: "ts = Str (strip ?t) # ts'"
        by (auto split: prod.splits)
      from less.hyps [OF lr spr tr z'] t show ?thesis by simp
    qed
  qed
qed

lemma join_append:
  "xs \<noteq> [] \<Longrightarrow> ys \<noteq> [] \<Longrightarrow> join sep (xs @ ys) = join sep xs @ sep @ join sep ys"
proof (induction sep xs rule: join.induct)
  case (1 sep)
  then show ?case by simp
next
  case (2 sep x)
  then show ?case by (cases ys) simp_all
next
  case (3 sep x y ys')
  then show ?case by simp
qed

lemma join_concat:
  "\<forall>xs \<in> set xss. xs \<noteq> [] \<Longrightarrow> join sep (map (join sep) xss) = join sep (concat xss)"
proof (induction xss)
  case Nil
  then show ?case by simp
next
  case (Cons xs xss)
  show ?case
  proof (cases xss)
    case Nil
    then show ?thesis by simp
  next
    case (Cons ys yss)
    with Cons.prems have "xs \<noteq> []" "concat xss \<noteq> []" by auto
    then have "join sep (xs @ concat xss) = join sep xs @ sep @ join sep (concat xss)"
      by (rule join_append)
    with Cons.IH Cons.prems Cons show ?thesis by simp
  qed
qed

lemma solid_flatten:
  "solid t \<Longrightarrow> flatten t \<noteq> [] \<and> match_to_string t = join '' '' (flatten t)"
proof (induction t)
  case (Str w)
  then show ?case by simp
next
  case (Grp ts)
  then have ne: "ts \<noteq> []" and all: "\<forall>t \<in> set ts. solid t" by (simp_all add: list_all_iff)
  with Grp.IH have ih: "\<forall>t \<in> set ts. flatten t \<noteq> [] \<and> match_to_string t = join '' '' (flatten t)"
    by blast
  then have m: "map match_to_string ts = map (join '' '' \<circ> flatten) ts"
    by (intro map_cong [OF refl]) simp
  have j: "join '' '' (map (join '' '') (map flatten ts)) = join '' '' (concat (map flatten ts))"
    using ih by (intro join_concat) simp
  have "match_to_string (Grp ts) = join '' '' (map match_to_string ts)" by simp
  also have "\<dots> = join '' '' (map (join '' '' \<circ> flatten) ts)" by (simp only: m)
  also have "\<dots> = join '' '' (map (join '' '') (map flatten ts))" by (simp only: map_map)
  also note j
  finally have "match_to_string (Grp ts) = join '' '' (flatten (Grp ts))" by simp
  moreover from ne ih have "concat (map flatten ts) \<noteq> []" by (cases ts) auto
  ultimately show ?case by simp
qed

lemma group_flatten:
  assumes "list_all solid ts"
  shows "match_to_string (Grp ts) = join '' '' (concat (map flatten ts))"
proof -
  from assms have ih: "\<forall>t \<in> set ts. flatten t \<noteq> [] \<and> match_to_string t = join '' '' (flatten t)"
    by (simp add: list_all_iff solid_flatten)
  then have m: "map match_to_string ts = map (join '' '' \<circ> flatten) ts"
    by (intro map_cong [OF refl]) simp
  have j: "join '' '' (map (join '' '') (map flatten ts)) = join '' '' (concat (map flatten ts))"
    using ih by (intro join_concat) simp
  have "match_to_string (Grp ts) = join '' '' (map match_to_string ts)" by simp
  also have "\<dots> = join '' '' (map (join '' '' \<circ> flatten) ts)" by (simp only: m)
  also have "\<dots> = join '' '' (map (join '' '') (map flatten ts))" by (simp only: map_map)
  also note j
  finally show ?thesis .
qed

lemma span_of_local:
  "span_of opener closer d (u @ [closer]) = Closes [] \<Longrightarrow>
   span_of opener closer d (u @ closer # r) = Closes r"
  by (induction u arbitrary: d) (auto split: if_splits nat.splits)

lemma preParse_append_hd:
  assumes "closer \<notin> set DEFAULT_WHITE_CHARS"
  shows "\<exists>y ys ys'. preParse (u @ [closer]) = y # ys \<and> preParse (u @ closer # r) = y # ys'"
proof (induction u)
  case Nil
  with assms show ?case by (simp add: preParse_Cons_other)
next
  case (Cons x u)
  then show ?case
    by (cases "x \<in> set DEFAULT_WHITE_CHARS")
      (simp_all add: preParse_Cons_white preParse_Cons_other)
qed

lemma tidy_local:
  assumes b: "brackets opener closer"
  shows "span_of opener closer d (u @ [closer]) = Closes [] \<Longrightarrow>
   tidy opener closer d (u @ [closer]) \<Longrightarrow> tidy opener closer d (u @ closer # r)"
proof (induction u arbitrary: d)
  case Nil
  then show ?case by (auto split: if_splits nat.splits)
next
  case (Cons x u)
  from b have cw: "closer \<notin> set DEFAULT_WHITE_CHARS" by (simp add: brackets_def)
  from preParse_append_hd [OF cw, of u r] obtain y ys ys' where
    h: "preParse (u @ [closer]) = y # ys" "preParse (u @ closer # r) = y # ys'" by blast
  from Cons.prems Cons.IH h show ?case
    by (auto split: if_splits nat.splits)
qed

lemma dropWhile_append_stop:
  "\<not> P x \<Longrightarrow> dropWhile P (u @ x # v) = dropWhile P u @ x # v"
  by (induction u) simp_all

lemma words_of_word':
  assumes "s \<noteq> []" "\<not> separator opener closer (hd s)"
  shows "words_of opener closer s =
     takeWhile (\<lambda>y. \<not> separator opener closer y) s
     # words_of opener closer (dropWhile (\<lambda>y. \<not> separator opener closer y) s)"
proof -
  from assms(1) obtain x xs where s: "s = x # xs" by (cases s) auto
  with assms(2) have "\<not> separator opener closer x" by simp
  from words_of_word [OF this, of xs] s show ?thesis by simp
qed

lemma dropWhile_word_shorter:
  assumes "s \<noteq> []" "\<not> separator opener closer (hd s)"
  shows "length (dropWhile (\<lambda>y. \<not> separator opener closer y) s) < length s"
proof -
  from assms(1) obtain x xs where s: "s = x # xs" by (cases s) auto
  with assms(2) have "dropWhile (\<lambda>y. \<not> separator opener closer y) s =
      dropWhile (\<lambda>y. \<not> separator opener closer y) xs" by simp
  moreover have "length (dropWhile (\<lambda>y. \<not> separator opener closer y) xs) \<le> length xs"
    by (rule length_dropWhile_le)
  ultimately show ?thesis using s by simp
qed

lemma words_of_split:
  "separator opener closer x \<Longrightarrow>
   words_of opener closer (u @ x # v) = words_of opener closer u @ words_of opener closer v"
proof (induction "length u" arbitrary: u rule: less_induct)
  case less
  let ?ns = "\<lambda>y. \<not> separator opener closer y"
  show ?case
  proof (cases "u = []")
    case True
    with less.prems show ?thesis by (simp add: words_of_separator words_of_Nil)
  next
    case False
    then obtain y u' where u: "u = y # u'" by (cases u) auto
    show ?thesis
    proof (cases "separator opener closer y")
      case True
      have "words_of opener closer (u @ x # v) = words_of opener closer (u' @ x # v)"
        using True u by (simp add: words_of_separator)
      also have "\<dots> = words_of opener closer u' @ words_of opener closer v"
        using less.hyps [of u'] less.prems u by simp
      also have "words_of opener closer u' = words_of opener closer u"
        using True u by (simp add: words_of_separator)
      finally show ?thesis .
    next
      case ny: False
      with u have hu: "\<not> separator opener closer (hd u)" by simp
      from False u have hux: "u @ x # v \<noteq> []" "\<not> separator opener closer (hd (u @ x # v))"
        using ny by simp_all
      have sx: "\<not> ?ns x" using less.prems by simp
      have t: "takeWhile ?ns (u @ x # v) = takeWhile ?ns u"
        using sx by (rule takeWhile_tail)
      have d: "dropWhile ?ns (u @ x # v) = dropWhile ?ns u @ x # v"
        using sx by (rule dropWhile_append_stop)
      have "length (dropWhile ?ns u) < length u"
        using False hu by (rule dropWhile_word_shorter)
      from less.hyps [OF this less.prems]
      have ih: "words_of opener closer (dropWhile ?ns u @ x # v) =
          words_of opener closer (dropWhile ?ns u) @ words_of opener closer v" .
      have "words_of opener closer (u @ x # v) =
          takeWhile ?ns (u @ x # v) # words_of opener closer (dropWhile ?ns (u @ x # v))"
        using hux by (rule words_of_word')
      also have "\<dots> = takeWhile ?ns u
          # (words_of opener closer (dropWhile ?ns u) @ words_of opener closer v)"
        by (simp only: t d ih)
      also have "\<dots> = (takeWhile ?ns u # words_of opener closer (dropWhile ?ns u))
          @ words_of opener closer v"
        by (simp only: append_Cons)
      also have "takeWhile ?ns u # words_of opener closer (dropWhile ?ns u) =
          words_of opener closer u"
        using words_of_word' [OF False hu] by simp
      finally show ?thesis .
    qed
  qed
qed

lemma words_of_props:
  "w \<in> set (words_of opener closer s) \<Longrightarrow>
   w \<noteq> [] \<and> (\<forall>y \<in> set w. \<not> separator opener closer y) \<and> set w \<subseteq> set s"
proof (induction "length s" arbitrary: s rule: less_induct)
  case less
  let ?ns = "\<lambda>y. \<not> separator opener closer y"
  show ?case
  proof (cases "s = []")
    case True
    with less.prems show ?thesis by (simp add: words_of_Nil)
  next
    case False
    then obtain x xs where s: "s = x # xs" by (cases s) auto
    show ?thesis
    proof (cases "separator opener closer x")
      case True
      with s less.prems have "w \<in> set (words_of opener closer xs)"
        by (simp add: words_of_separator)
      moreover have "length xs < length s" using s by simp
      ultimately have "w \<noteq> [] \<and> (\<forall>y \<in> set w. ?ns y) \<and> set w \<subseteq> set xs"
        using less.hyps by blast
      moreover have "set xs \<subseteq> set s" using s by auto
      ultimately show ?thesis by blast
    next
      case ny: False
      with s have hs: "\<not> separator opener closer (hd s)" by simp
      from less.prems words_of_word' [OF False hs]
      have "w = takeWhile ?ns s \<or> w \<in> set (words_of opener closer (dropWhile ?ns s))"
        by simp
      then show ?thesis
      proof
        assume a: "w = takeWhile ?ns s"
        have 1: "w \<noteq> []" using a s ny by simp
        have 2: "\<forall>y \<in> set w. ?ns y" unfolding a using set_takeWhileD by fast
        have 3: "set w \<subseteq> set s" unfolding a using set_takeWhileD by fast
        from 1 2 3 show ?thesis by blast
      next
        assume b: "w \<in> set (words_of opener closer (dropWhile ?ns s))"
        have "length (dropWhile ?ns s) < length s"
          using False hs by (rule dropWhile_word_shorter)
        from less.hyps [OF this b]
        have "w \<noteq> [] \<and> (\<forall>y \<in> set w. ?ns y) \<and> set w \<subseteq> set (dropWhile ?ns s)" .
        moreover have "set (dropWhile ?ns s) \<subseteq> set s"
          using set_dropWhileD by fast
        ultimately show ?thesis by blast
      qed
    qed
  qed
qed

lemma preParse_lead:
  assumes "set lead \<subseteq> set DEFAULT_WHITE_CHARS" "x \<notin> set DEFAULT_WHITE_CHARS"
  shows "preParse (lead @ x # xs) = x # xs"
  using assms unfolding preParse_def by (induction lead) simp_all

lemma strip_word:
  assumes "w \<noteq> []" "\<forall>y \<in> set w. y \<notin> set DEFAULT_WHITE_CHARS"
    and "CHR 0x0B \<notin> set w" "CHR 0x0C \<notin> set w"
  shows "strip w = w"
proof -
  have p: "y \<notin> set py_whitespace" if "y \<in> set w" for y
  proof -
    from that assms(2) have "y \<notin> set DEFAULT_WHITE_CHARS" by blast
    moreover from that assms(3,4) have "y \<noteq> CHR 0x0B" "y \<noteq> CHR 0x0C" by blast+
    ultimately show ?thesis by (simp add: py_whitespace_def DEFAULT_WHITE_CHARS_def)
  qed
  from assms(1) have "hd w \<in> set w" "last w \<in> set w" by simp_all
  with p have "hd w \<notin> set py_whitespace" "last w \<notin> set py_whitespace" by blast+
  with assms(1) show ?thesis unfolding strip_def by (simp add: strip_chars_id)
qed

lemma group_field:
  assumes b: "brackets opener closer"
    and lead: "set lead \<subseteq> set DEFAULT_WHITE_CHARS"
    and c: "clean opener closer inside"
  shows "\<exists>g. nestedExpr opener closer (lead @ opener # inside @ closer # r) = Some (g, r)
      \<and> match_to_string g = join '' '' (words_of opener closer inside)
      \<and> single_spaced (match_to_string g)"
proof -
  let ?s = "lead @ opener # inside @ closer # r"
  let ?cs = "inside @ closer # r"
  from c have sp0: "span_of opener closer 0 (inside @ [closer]) = Closes []"
    and td0: "tidy opener closer 0 (inside @ [closer])"
    and nv: "CHR 0x0B \<notin> set inside" "CHR 0x0C \<notin> set inside"
    unfolding clean_def by blast+
  from b have ow: "opener \<notin> set DEFAULT_WHITE_CHARS" unfolding brackets_def by blast
  have p: "preParse ?s = opener # ?cs" using lead ow by (rule preParse_lead)
  have sp: "span_of opener closer 0 ?cs = Closes r" using sp0 by (rule span_of_local)
  then have nb: "span_of opener closer 0 ?cs \<noteq> Beyond" by simp
  have td: "tidy opener closer 0 ?cs" using b sp0 td0 by (rule tidy_local)
  from group_span_nestedExpr [OF b p nb] sp
  obtain g ts r1 where n: "nestedExpr opener closer ?s = Some (g, r)"
    and z: "ZeroOrMore opener closer ?cs = (ts, r1)" and g: "g = Grp ts"
    and p1: "preParse r1 = closer # r"
    by (cases "nestedExpr opener closer ?s") auto
  have sc: "separator opener closer closer" by (simp add: separator_def)
  have "words_of opener closer r1 = words_of opener closer (preParse r1)"
    by (simp only: words_of_preParse)
  also have "\<dots> = words_of opener closer r"
    unfolding p1 using sc by (rule words_of_separator)
  finally have w1: "words_of opener closer r1 = words_of opener closer r" .
  have w2: "words_of opener closer ?cs = words_of opener closer inside @ words_of opener closer r"
    using sc by (rule words_of_split)
  from loop_words [OF b nb z]
  have "map strip (words_of opener closer inside) @ map strip (words_of opener closer r) =
      concat (map flatten ts) @ map strip (words_of opener closer r)"
    by (simp only: w1 w2 map_append)
  then have fl: "map strip (words_of opener closer inside) = concat (map flatten ts)"
    by (simp only: append_same_eq)
  have props: "w \<noteq> [] \<and> (\<forall>y \<in> set w. y \<notin> set DEFAULT_WHITE_CHARS)
      \<and> CHR 0x0B \<notin> set w \<and> CHR 0x0C \<notin> set w"
    if "w \<in> set (words_of opener closer inside)" for w
  proof -
    from words_of_props [OF that]
    have 1: "w \<noteq> []" and 2: "\<forall>y \<in> set w. \<not> separator opener closer y"
      and 3: "set w \<subseteq> set inside" by blast+
    from 2 separator_white have "\<forall>y \<in> set w. y \<notin> set DEFAULT_WHITE_CHARS" by blast
    moreover from 3 nv have "CHR 0x0B \<notin> set w" "CHR 0x0C \<notin> set w" by blast+
    ultimately show ?thesis using 1 by blast
  qed
  have "strip w = w" if "w \<in> set (words_of opener closer inside)" for w
    using props [OF that] strip_word by blast
  then have "map strip (words_of opener closer inside) = words_of opener closer inside"
    by (simp add: map_idI)
  with fl have fl': "concat (map flatten ts) = words_of opener closer inside" by simp
  from loop_tidy [OF b nb td z] have "list_all solid ts" by blast
  from group_flatten [OF this] fl' g
  have m: "match_to_string g = join '' '' (words_of opener closer inside)" by simp
  have "single_spaced (join '' '' (words_of opener closer inside))"
  proof (cases "words_of opener closer inside = []")
    case True
    then show ?thesis by simp
  next
    case False
    have "\<forall>w \<in> set (words_of opener closer inside). w \<noteq> [] \<and> single_spaced w"
      using props single_spaced_word by blast
    with False single_spaced_join show ?thesis by blast
  qed
  with n m show ?thesis by simp
qed

lemma command_fields:
  assumes l: "set l1 \<subseteq> set DEFAULT_WHITE_CHARS" "set l2 \<subseteq> set DEFAULT_WHITE_CHARS"
      "set l3 \<subseteq> set DEFAULT_WHITE_CHARS"
    and c: "clean CHR ''['' CHR '']'' i1" "clean CHR ''{'' CHR ''}'' i2" "clean CHR ''{'' CHR ''}'' i3"
  shows "\<exists>content.
      element_pattern lit
        (lit @ l1 @ CHR ''['' # i1 @ CHR '']'' # l2 @ CHR ''{'' # i2 @ CHR ''}'' #
         l3 @ CHR ''{'' # i3 @ CHR ''}'' # r) = Some (content, r)
      \<and> parse content =
          Inr \<lparr>name = join '' '' (words_of CHR ''{'' CHR ''}'' i3),
               code = join '' '' (words_of CHR ''['' CHR '']'' i1),
               date = join '' '' (words_of CHR ''{'' CHR ''}'' i2)\<rparr>
      \<and> single_spaced (join '' '' (words_of CHR ''{'' CHR ''}'' i3))
      \<and> single_spaced (join '' '' (words_of CHR ''['' CHR '']'' i1))
      \<and> single_spaced (join '' '' (words_of CHR ''{'' CHR ''}'' i2))"
proof -
  let ?r2 = "l3 @ CHR ''{'' # i3 @ CHR ''}'' # r"
  let ?r1 = "l2 @ CHR ''{'' # i2 @ CHR ''}'' # ?r2"
  let ?s = "lit @ l1 @ CHR ''['' # i1 @ CHR '']'' # ?r1"
  from group_field [OF brackets_square l(1) c(1), of ?r1] obtain g1 where
    n1: "nestedExpr CHR ''['' CHR '']'' (l1 @ CHR ''['' # i1 @ CHR '']'' # ?r1) = Some (g1, ?r1)"
    and m1: "match_to_string g1 = join '' '' (words_of CHR ''['' CHR '']'' i1)"
    and s1: "single_spaced (match_to_string g1)" by blast
  from group_field [OF brackets_brace l(2) c(2), of ?r2] obtain g2 where
    n2: "nestedExpr CHR ''{'' CHR ''}'' ?r1 = Some (g2, ?r2)"
    and m2: "match_to_string g2 = join '' '' (words_of CHR ''{'' CHR ''}'' i2)"
    and s2: "single_spaced (match_to_string g2)" by blast
  from group_field [OF brackets_brace l(3) c(3), of r] obtain g3 where
    n3: "nestedExpr CHR ''{'' CHR ''}'' ?r2 = Some (g3, r)"
    and m3: "match_to_string g3 = join '' '' (words_of CHR ''{'' CHR ''}'' i3)"
    and s3: "single_spaced (match_to_string g3)" by blast
  have e: "element_pattern lit ?s = Some ([Str lit, g1, g2, g3], r)"
    by (simp add: element_pattern_def n1 n2 n3)
  have p: "parse [Str lit, g1, g2, g3] =
      Inr \<lparr>name = join '' '' (words_of CHR ''{'' CHR ''}'' i3),
               code = join '' '' (words_of CHR ''['' CHR '']'' i1),
               date = join '' '' (words_of CHR ''{'' CHR ''}'' i2)\<rparr>"
    by (simp add: parse_def m1 m2 m3)
  from s1 s2 s3 have "single_spaced (join '' '' (words_of CHR ''{'' CHR ''}'' i3))"
    "single_spaced (join '' '' (words_of CHR ''['' CHR '']'' i1))"
    "single_spaced (join '' '' (words_of CHR ''{'' CHR ''}'' i2))"
    by (simp_all only: m1 m2 m3)
  with e p show ?thesis by blast
qed

lemma project_command_scanned:
  assumes l: "set l1 \<subseteq> set DEFAULT_WHITE_CHARS" "set l2 \<subseteq> set DEFAULT_WHITE_CHARS"
      "set l3 \<subseteq> set DEFAULT_WHITE_CHARS"
    and c: "clean CHR ''['' CHR '']'' i1" "clean CHR ''{'' CHR ''}'' i2" "clean CHR ''{'' CHR ''}'' i3"
  shows "scan_loop
        ((bs # ''keyproject'') @ l1 @ CHR ''['' # i1 @ CHR '']'' # l2 @ CHR ''{'' # i2 @ CHR ''}'' #
         l3 @ CHR ''{'' # i3 @ CHR ''}'' # r) projects =
      scan_loop r
        (projects @
          [\<lparr>name = join '' '' (words_of CHR ''{'' CHR ''}'' i3),
            code = join '' '' (words_of CHR ''['' CHR '']'' i1),
            date = join '' '' (words_of CHR ''{'' CHR ''}'' i2), deliverables = []\<rparr>])"
proof -
  define s where "s = (bs # ''keyproject'') @ l1 @ CHR ''['' # i1 @ CHR '']'' # l2 @ CHR ''{'' # i2 @
      CHR ''}'' # l3 @ CHR ''{'' # i3 @ CHR ''}'' # r"
  let ?ps = "projects @
          [\<lparr>name = join '' '' (words_of CHR ''{'' CHR ''}'' i3),
            code = join '' '' (words_of CHR ''['' CHR '']'' i1),
            date = join '' '' (words_of CHR ''{'' CHR ''}'' i2), deliverables = []\<rparr>]"
  from command_fields [OF l c, of "bs # ''keyproject''" r] obtain content where
    e: "project_pattern s = Some (content, r)"
    and p: "parse content =
          Inr \<lparr>name = join '' '' (words_of CHR ''{'' CHR ''}'' i3),
               code = join '' '' (words_of CHR ''['' CHR '']'' i1),
               date = join '' '' (words_of CHR ''{'' CHR ''}'' i2)\<rparr>"
    unfolding project_pattern_def s_def by blast
  have sp: "search_pattern projects s = Match r ?ps"
    by (simp add: search_pattern_def Or_project [OF e] ProjectParser_call_def p
        del: Or_longest.simps)
  have pp: "preParse s = s"
    unfolding s_def by (simp add: preParse_def DEFAULT_WHITE_CHARS_def)
  have len: "length r < length s" unfolding s_def by simp
  have "scan_loop s projects = scan_loop r ?ps"
    by (subst scan_loop.simps) (simp only: Let_def pp sp attempt.case len if_True)
  then show ?thesis unfolding s_def .
qed

text \<open>
  C9, as it is stated: the captured code, date and name are normalized, every run of
  white space inside a group becoming exactly one space and no white space staying at
  the ends. \<^verbatim>\<open>match_to_string\<close> joins the flattened tokens by single spaces, and an empty
  nested group is an empty token: the name written \<^verbatim>\<open>{a {} b}\<close> is captured with two
  spaces in a row and the name written \<^verbatim>\<open>{{} a}\<close> with a leading space.
\<close>

theorem fields_whitespace_normalized_counterexample:
  "parse_projects (bs # ''keyproject[P]{d}{a {} b}'') =
     Inr [\<lparr>name = ''a  b'', code = ''P'', date = ''d'', deliverables = []\<rparr>]
   \<and> parse_projects (bs # ''keyproject[P]{d}{{} a}'') =
     Inr [\<lparr>name = '' a'', code = ''P'', date = ''d'', deliverables = []\<rparr>]"
  by code_simp

text \<open>
  C9, amended: when the texts of the code, date and name groups of a command are
  clean, that is without quote characters, vertical tabs and form feeds, nested within
  \<open>max_nesting\<close> and without an empty nested group, the command is recognized and each
  captured field is the words of its group joined by single spaces, the words being the
  runs of characters other than white space and brackets. So every run of spaces, tabs
  and line ends between two words has become exactly one space and none is left at the
  ends; a name written \<^verbatim>\<open>{ Proj <tab><newline>  One }\<close> is captured as \<^verbatim>\<open>Proj One\<close>.
  Where the scan meets a \<^verbatim>\<open>keyproject\<close> command with such groups, it appends a project
  with these fields and goes on after the command. Inside a quoted string the white
  space stays as it is written: the name \<^verbatim>\<open>{a "b  c" d}\<close> keeps its two spaces.
\<close>

theorem fields_are_words:
  "(set l1 \<subseteq> set DEFAULT_WHITE_CHARS \<and> set l2 \<subseteq> set DEFAULT_WHITE_CHARS
      \<and> set l3 \<subseteq> set DEFAULT_WHITE_CHARS
      \<and> clean CHR ''['' CHR '']'' code_text \<and> clean CHR ''{'' CHR ''}'' date_text
      \<and> clean CHR ''{'' CHR ''}'' name_text \<longrightarrow>
    (\<exists>content.
      element_pattern lit
        (lit @ l1 @ CHR ''['' # code_text @ CHR '']'' # l2 @ CHR ''{'' # date_text @ CHR ''}'' #
         l3 @ CHR ''{'' # name_text @ CHR ''}'' # r) = Some (content, r)
      \<and> parse content =
          Inr \<lparr>name = join '' '' (words_of CHR ''{'' CHR ''}'' name_text),
               code = join '' '' (words_of CHR ''['' CHR '']'' code_text),
               date = join '' '' (words_of CHR ''{'' CHR ''}'' date_text)\<rparr>
      \<and> single_spaced (join '' '' (words_of CHR ''{'' CHR ''}'' name_text))
      \<and> single_spaced (join '' '' (words_of CHR ''['' CHR '']'' code_text))
      \<and> single_spaced (join '' '' (words_of CHR ''{'' CHR ''}'' date_text)))
    \<and> scan_loop
        ((bs # ''keyproject'') @ l1 @ CHR ''['' # code_text @ CHR '']'' # l2 @ CHR ''{'' #
         date_text @ CHR ''}'' # l3 @ CHR ''{'' # name_text @ CHR ''}'' # r) projects =
      scan_loop r
        (projects @
          [\<lparr>name = join '' '' (words_of CHR ''{'' CHR ''}'' name_text),
            code = join '' '' (words_of CHR ''['' CHR '']'' code_text),
            date = join '' '' (words_of CHR ''{'' CHR ''}'' date_text), deliverables = []\<rparr>]))
   \<and> parse_projects
        (bs # ''keyproject[ P1 ]{2020}{ Proj '' @ [CHR 0x09, CHR 0x0A] @ ''  One }'') =
       Inr [\<lparr>name = ''Proj One'', code = ''P1'', date = ''2020'', deliverables = []\<rparr>]
   \<and> parse_projects
        (bs # ''keyproject[P]{d}{a '' @ [CHR 0x22] @ ''b  c'' @ [CHR 0x22] @ '' d}'') =
       Inr [\<lparr>name = ''a '' @ [CHR 0x22] @ ''b  c'' @ [CHR 0x22] @ '' d'', code = ''P'',
             date = ''d'', deliverables = []\<rparr>]"
proof -
  have q: "parse_projects
        (bs # ''keyproject[P]{d}{a '' @ [CHR 0x22] @ ''b  c'' @ [CHR 0x22] @ '' d}'') =
       Inr [\<lparr>name = ''a '' @ [CHR 0x22] @ ''b  c'' @ [CHR 0x22] @ '' d'', code = ''P'',
             date = ''d'', deliverables = []\<rparr>]"
    by code_simp
  have b: "parse_projects
        (bs # ''keyproject[ P1 ]{2020}{ Proj '' @ [CHR 0x09, CHR 0x0A] @ ''  One }'') =
       Inr [\<lparr>name = ''Proj One'', code = ''P1'', date = ''2020'', deliverables = []\<rparr>]"
    by code_simp
  from command_fields project_command_scanned b q show ?thesis by blast
qed

theorem fields_are_words_witness:
  "set '' '' \<subseteq> set DEFAULT_WHITE_CHARS \<and> set ([] :: string) \<subseteq> set DEFAULT_WHITE_CHARS
   \<and> set [CHR 0x0A, CHR '' ''] \<subseteq> set DEFAULT_WHITE_CHARS
   \<and> clean CHR ''['' CHR '']'' '' P1 '' \<and> clean CHR ''{'' CHR ''}'' ''2020''
   \<and> clean CHR ''{'' CHR ''}'' ('' Proj   One {and '' @ [CHR 0x0A] @ ''more} it'')
   \<and> (\<exists>content.
        element_pattern (bs # ''keyproject'')
          (bs # ''keyproject [ P1 ]{2020}'' @ [CHR 0x0A] @ '' { Proj   One {and '' @ [CHR 0x0A] @
           ''more} it} it'' @ [CHR 0x27] @ ''s'') = Some (content, '' it'' @ [CHR 0x27] @ ''s'')
        \<and> parse content = Inr \<lparr>name = ''Proj One and more it'', code = ''P1'', date = ''2020''\<rparr>)
   \<and> single_spaced ''Proj One and more it''"
proof -
  have l: "set '' '' \<subseteq> set DEFAULT_WHITE_CHARS" "set ([] :: string) \<subseteq> set DEFAULT_WHITE_CHARS"
    "set [CHR 0x0A, CHR '' ''] \<subseteq> set DEFAULT_WHITE_CHARS"
    by (simp_all add: DEFAULT_WHITE_CHARS_def)
  have c: "clean CHR ''['' CHR '']'' '' P1 ''" "clean CHR ''{'' CHR ''}'' ''2020''"
    "clean CHR ''{'' CHR ''}'' ('' Proj   One {and '' @ [CHR 0x0A] @ ''more} it'')"
    by code_simp+
  have w: "join '' '' (words_of CHR ''{'' CHR ''}'' ('' Proj   One {and '' @ [CHR 0x0A] @ ''more} it'')) =
      ''Proj One and more it''"
    "join '' '' (words_of CHR ''['' CHR '']'' '' P1 '') = ''P1''"
    "join '' '' (words_of CHR ''{'' CHR ''}'' ''2020'') = ''2020''"
    by code_simp+
  note t = fields_are_words
    [of "'' ''" "[]" "[CHR 0x0A, CHR '' '']" "'' P1 ''" "''2020''"
      "'' Proj   One {and '' @ [CHR 0x0A] @ ''more} it''" "bs # ''keyproject''"
      "'' it'' @ [CHR 0x27] @ ''s''"]
  from t l c have "(\<exists>content.
        element_pattern (bs # ''keyproject'')
          ((bs # ''keyproject'') @ '' '' @ CHR ''['' # '' P1 '' @ CHR '']'' # [] @ CHR ''{'' # ''2020'' @ CHR ''}'' #
           [CHR 0x0A, CHR '' ''] @ CHR ''{'' # ('' Proj   One {and '' @ [CHR 0x0A] @ ''more} it'') @ CHR ''}'' #
           ('' it'' @ [CHR 0x27] @ ''s'')) = Some (content, '' it'' @ [CHR 0x27] @ ''s'')
        \<and> parse content = Inr \<lparr>name = ''Proj One and more it'', code = ''P1'', date = ''2020''\<rparr>)
        \<and> single_spaced ''Proj One and more it''"
    unfolding w by blast
  then have "(\<exists>content.
        element_pattern (bs # ''keyproject'')
          (bs # ''keyproject [ P1 ]{2020}'' @ [CHR 0x0A] @ '' { Proj   One {and '' @ [CHR 0x0A] @
           ''more} it} it'' @ [CHR 0x27] @ ''s'') = Some (content, '' it'' @ [CHR 0x27] @ ''s'')
        \<and> parse content = Inr \<lparr>name = ''Proj One and more it'', code = ''P1'', date = ''2020''\<rparr>)
   \<and> single_spaced ''Proj One and more it''"
    by (simp only: append.simps)
  with l c show ?thesis by blast
qed

end
